theory Spec2Isabelle
  imports Complex_Main
begin

section \<open>Role-based access control of the MongoDB Slack bot (rbac.py)\<close>

text \<open>
  A shallow embedding of the class \<open>RBACManager\<close>. The object \<open>self\<close> is a record that
  every method takes and returns. The Slack client is the environment: each of its
  methods is a function of the calls made so far, so that a reply may change from one
  call to the next, and answers either a response or an exception. The calls issued,
  the records logged and the number of clock reads are kept in the same record, which
  is how the theorems below count directory calls and log records.
  \<^item> \<open>datetime.now().timestamp()\<close> is a float of seconds; it is a \<open>real\<close>
    here, read from the environment's clock, one reading per call of \<open>now\<close>.
  \<^item> A Python \<open>set\<close> that the code only tests for membership is a HOL set; the two
    sets the code iterates over (\<open>admin_users\<close>, \<open>admin_groups\<close>) are lists, in the
    order of the iteration.
  \<^item> Strings are ASCII; \<open>str.lower\<close> is the ASCII lower case.
  \<^item> A response holds the keys the code reads with \<open>[]\<close>; a key read with \<open>.get\<close>
    is optional.
\<close>

subsection \<open>Exceptions, Slack responses and the environment\<close>

datatype exn = SlackApiError string | OtherException string

record slack_profile =
  profile_display_name :: "string option"
  profile_real_name :: "string option"

record slack_user =
  u_id :: string
  u_deleted :: "bool option"
  u_name :: "string option"
  u_real_name :: "string option"
  u_display_name :: "string option"
  u_profile :: "slack_profile option"

record users_list_response =
  ul_ok :: bool
  ul_members :: "slack_user list"

record lookup_response =
  le_ok :: bool
  le_user_id :: string

record usergroup =
  g_handle :: string
  g_id :: string

record usergroups_response =
  gl_ok :: bool
  gl_usergroups :: "usergroup list"

record members_response =
  gm_ok :: bool
  gm_users :: "string list"

record user_info_response =
  ui_ok :: bool
  ui_user_name :: string

text \<open>The text of the alert, by the values the f-string is built from.\<close>

record alert =
  alert_username :: string
  alert_user_id :: string
  alert_operation :: string
  alert_time :: real

datatype api_call =
    UsersList
  | UsersLookupByEmail string
  | UsergroupsList
  | UsergroupsUsersList string
  | UsersInfo string
  | ChatPostMessage string alert

record environment =
  users_list :: "api_call list \<Rightarrow> exn + users_list_response"
  users_lookupByEmail :: "api_call list \<Rightarrow> string \<Rightarrow> exn + lookup_response"
  usergroups_list :: "api_call list \<Rightarrow> exn + usergroups_response"
  usergroups_users_list :: "api_call list \<Rightarrow> string \<Rightarrow> exn + members_response"
  users_info :: "api_call list \<Rightarrow> string \<Rightarrow> exn + user_info_response"
  chat_postMessage :: "api_call list \<Rightarrow> string \<Rightarrow> alert \<Rightarrow> exn + unit"
  now :: "nat \<Rightarrow> real"

subsection \<open>The manager\<close>

datatype config_value = StrList "string list" | BoolVal bool

datatype log_record =
    LogPermissionCheck string string
  | LogErrorResolvingUsername string exn
  | LogErrorGroupMembership exn
  | LogErrorNotifyingAdmin string exn
  | LogErrorAdminNotification exn
  | LogCacheCleared
  | LogConfigurationUpdated "(string \<times> config_value) list"

record decision =
  allowed :: bool
  reason :: string

record rbac_manager =
  rbac_enabled :: bool
  admin_users :: "string list"
  admin_groups :: "string list"
  admin_operations :: "string set"
  user_operations :: "string set"
  self_service_operations :: "string set"
  notify_admin_on_denied :: bool
  log_access_attempts :: bool
  group_membership_cache :: "string \<rightharpoonup> (bool \<times> real)"
  username_to_id_cache :: "string \<rightharpoonup> (string \<times> real)"
  calls :: "api_call list"
  ticks :: nat
  log :: "log_record list"

text \<open>\<open>self.cache_ttl = 300\<close>, set in \<open>__init__\<close> and never assigned again.\<close>

definition cache_ttl :: real where
  "cache_ttl = 300"

definition issue :: "api_call \<Rightarrow> rbac_manager \<Rightarrow> rbac_manager" where
  "issue c s = s\<lparr>calls := calls s @ [c]\<rparr>"

definition emit :: "log_record \<Rightarrow> rbac_manager \<Rightarrow> rbac_manager" where
  "emit r s = s\<lparr>log := log s @ [r]\<rparr>"

definition tick :: "rbac_manager \<Rightarrow> rbac_manager" where
  "tick s = s\<lparr>ticks := Suc (ticks s)\<rparr>"

subsection \<open>resolve_username_to_user_id\<close>

definition lower_char :: "char \<Rightarrow> char" where
  "lower_char c =
     (case map_of (zip ''ABCDEFGHIJKLMNOPQRSTUVWXYZ'' ''abcdefghijklmnopqrstuvwxyz'') c of
        None \<Rightarrow> c
      | Some l \<Rightarrow> l)"

definition lower :: "string \<Rightarrow> string" where
  "lower xs = map lower_char xs"

definition get_or :: "'a option \<Rightarrow> 'a \<Rightarrow> 'a" where
  "get_or v d = (case v of None \<Rightarrow> d | Some x \<Rightarrow> x)"

definition user_matches :: "string \<Rightarrow> slack_user \<Rightarrow> bool" where
  "user_matches username user \<longleftrightarrow>
     u_name user = Some username
   \<or> lower (get_or (u_real_name user) []) = lower username
   \<or> u_display_name user = Some username
   \<or> (case u_profile user of None \<Rightarrow> None | Some p \<Rightarrow> profile_display_name p) = Some username
   \<or> lower (case u_profile user of None \<Rightarrow> [] | Some p \<Rightarrow> get_or (profile_real_name p) [])
       = lower username"

fun find_user :: "string \<Rightarrow> slack_user list \<Rightarrow> string option" where
  "find_user username [] = None"
| "find_user username (user # rest) =
     (if \<not> get_or (u_deleted user) False \<and> user_matches username user
      then Some (u_id user)
      else find_user username rest)"

definition lookup_by_email ::
  "environment \<Rightarrow> string \<Rightarrow> rbac_manager \<Rightarrow> (exn + string option) \<times> rbac_manager" where
  "lookup_by_email env username s =
     (let s1 = issue (UsersLookupByEmail username) s in
      case users_lookupByEmail env (calls s) username of
        Inl (SlackApiError m) \<Rightarrow> (Inr None, s1)
      | Inl (OtherException m) \<Rightarrow> (Inl (OtherException m), s1)
      | Inr email_response \<Rightarrow>
          if le_ok email_response then (Inr (Some (le_user_id email_response)), s1)
          else (Inr None, s1))"

definition resolve_username_to_user_id ::
  "environment \<Rightarrow> string \<Rightarrow> rbac_manager \<Rightarrow> (exn + string option) \<times> rbac_manager" where
  "resolve_username_to_user_id env username s =
     (let s1 = issue UsersList s in
      case users_list env (calls s) of
        Inl (SlackApiError m) \<Rightarrow>
          (Inr None, emit (LogErrorResolvingUsername username (SlackApiError m)) s1)
      | Inl (OtherException m) \<Rightarrow> (Inl (OtherException m), s1)
      | Inr response \<Rightarrow>
          (case (if ul_ok response then find_user username (ul_members response) else None) of
             Some uid \<Rightarrow> (Inr (Some uid), s1)
           | None \<Rightarrow>
               if CHR ''@'' \<in> set username then lookup_by_email env username s1
               else (Inr None, s1)))"

subsection \<open>resolve_admin_entry_to_user_id\<close>

definition is_user_id_format :: "string \<Rightarrow> bool" where
  "is_user_id_format admin_entry \<longleftrightarrow>
     (case admin_entry of [] \<Rightarrow> False | c # _ \<Rightarrow> c = CHR ''U'') \<and> length admin_entry = 11"

definition lstrip_at :: "string \<Rightarrow> string" where
  "lstrip_at admin_entry = dropWhile (\<lambda>c. c = CHR ''@'') admin_entry"

definition username_key :: "string \<Rightarrow> string" where
  "username_key username = ''username:'' @ username"

text \<open>
  The cache lookup at the head of the method: the clock is read only when the key is in
  the dictionary, and an entry older than the TTL is treated as absent.
\<close>

definition cached_user_id ::
  "environment \<Rightarrow> string \<Rightarrow> rbac_manager \<Rightarrow> string option \<times> rbac_manager" where
  "cached_user_id env cache_key s =
     (case username_to_id_cache s cache_key of
        None \<Rightarrow> (None, s)
      | Some (uid, ts) \<Rightarrow>
          (if now env (ticks s) - ts < cache_ttl then Some uid else None, tick s))"

text \<open>The rest of the method after a miss; \<open>if user_id:\<close> is false for \<open>None\<close> and for \<open>""\<close>.\<close>

definition resolve_and_cache ::
  "environment \<Rightarrow> string \<Rightarrow> rbac_manager \<Rightarrow> (exn + string option) \<times> rbac_manager" where
  "resolve_and_cache env username s =
     (case resolve_username_to_user_id env username s of
        (Inl e, s1) \<Rightarrow> (Inl e, s1)
      | (Inr None, s1) \<Rightarrow> (Inr None, s1)
      | (Inr (Some uid), s1) \<Rightarrow>
          if uid \<noteq> [] then
            (Inr (Some uid),
             tick (s1\<lparr>username_to_id_cache :=
                        (username_to_id_cache s1)
                          (username_key username \<mapsto> (uid, now env (ticks s1)))\<rparr>))
          else (Inr (Some uid), s1))"

definition resolve_admin_entry_to_user_id ::
  "environment \<Rightarrow> string \<Rightarrow> rbac_manager \<Rightarrow> (exn + string option) \<times> rbac_manager" where
  "resolve_admin_entry_to_user_id env admin_entry s =
     (if is_user_id_format admin_entry then (Inr (Some admin_entry), s)
      else
        case cached_user_id env (username_key (lstrip_at admin_entry)) s of
          (Some uid, s0) \<Rightarrow> (Inr (Some uid), s0)
        | (None, s0) \<Rightarrow> resolve_and_cache env (lstrip_at admin_entry) s0)"

subsection \<open>is_user_in_group\<close>

definition group_key :: "string \<Rightarrow> string \<Rightarrow> string" where
  "group_key user_id group_name = user_id @ '':'' @ group_name"

text \<open>
  The loop over \<open>response["usergroups"]\<close>: \<open>Inr (Some b)\<close> is the \<open>return is_member\<close>
  inside the loop, \<open>Inr None\<close> is the loop running to its end.
\<close>

fun scan_usergroups ::
  "environment \<Rightarrow> string \<Rightarrow> string \<Rightarrow> usergroup list \<Rightarrow> rbac_manager
     \<Rightarrow> (exn + bool option) \<times> rbac_manager" where
  "scan_usergroups env user_id group_name [] s = (Inr None, s)"
| "scan_usergroups env user_id group_name (ug # rest) s =
     (if g_handle ug = group_name then
        (case usergroups_users_list env (calls s) (g_id ug) of
           Inl e \<Rightarrow> (Inl e, issue (UsergroupsUsersList (g_id ug)) s)
         | Inr members \<Rightarrow>
             if gm_ok members then
               (Inr (Some (user_id \<in> set (gm_users members))),
                tick ((issue (UsergroupsUsersList (g_id ug)) s)
                  \<lparr>group_membership_cache :=
                     (group_membership_cache s)
                       (group_key user_id group_name \<mapsto>
                          (user_id \<in> set (gm_users members), now env (ticks s)))\<rparr>))
             else scan_usergroups env user_id group_name rest
                    (issue (UsergroupsUsersList (g_id ug)) s))
      else scan_usergroups env user_id group_name rest s)"

definition query_group ::
  "environment \<Rightarrow> string \<Rightarrow> string \<Rightarrow> rbac_manager \<Rightarrow> (exn + bool option) \<times> rbac_manager" where
  "query_group env user_id group_name s =
     (case usergroups_list env (calls s) of
        Inl e \<Rightarrow> (Inl e, issue UsergroupsList s)
      | Inr response \<Rightarrow>
          if gl_ok response
          then scan_usergroups env user_id group_name (gl_usergroups response)
                 (issue UsergroupsList s)
          else (Inr None, issue UsergroupsList s))"

definition cached_membership ::
  "environment \<Rightarrow> string \<Rightarrow> rbac_manager \<Rightarrow> bool option \<times> rbac_manager" where
  "cached_membership env cache_key s =
     (case group_membership_cache s cache_key of
        None \<Rightarrow> (None, s)
      | Some (is_member, ts) \<Rightarrow>
          (if now env (ticks s) - ts < cache_ttl then Some is_member else None, tick s))"

definition is_user_in_group ::
  "environment \<Rightarrow> string \<Rightarrow> string \<Rightarrow> rbac_manager \<Rightarrow> (exn + bool) \<times> rbac_manager" where
  "is_user_in_group env user_id group_name s =
     (case cached_membership env (group_key user_id group_name) s of
        (Some is_member, s0) \<Rightarrow> (Inr is_member, s0)
      | (None, s0) \<Rightarrow>
          (case query_group env user_id group_name s0 of
             (Inl (SlackApiError m), s1) \<Rightarrow>
               (Inr False, emit (LogErrorGroupMembership (SlackApiError m)) s1)
           | (Inl (OtherException m), s1) \<Rightarrow> (Inl (OtherException m), s1)
           | (Inr (Some is_member), s1) \<Rightarrow> (Inr is_member, s1)
           | (Inr None, s1) \<Rightarrow> (Inr False, s1)))"

subsection \<open>is_user_admin\<close>

fun any_admin_entry_resolves ::
  "environment \<Rightarrow> string \<Rightarrow> string list \<Rightarrow> rbac_manager \<Rightarrow> (exn + bool) \<times> rbac_manager" where
  "any_admin_entry_resolves env user_id [] s = (Inr False, s)"
| "any_admin_entry_resolves env user_id (admin_entry # rest) s =
     (case resolve_admin_entry_to_user_id env admin_entry s of
        (Inl e, s1) \<Rightarrow> (Inl e, s1)
      | (Inr r, s1) \<Rightarrow>
          if r = Some user_id then (Inr True, s1)
          else any_admin_entry_resolves env user_id rest s1)"

fun any_admin_group_contains ::
  "environment \<Rightarrow> string \<Rightarrow> string list \<Rightarrow> rbac_manager \<Rightarrow> (exn + bool) \<times> rbac_manager" where
  "any_admin_group_contains env user_id [] s = (Inr False, s)"
| "any_admin_group_contains env user_id (group_name # rest) s =
     (case is_user_in_group env user_id group_name s of
        (Inl e, s1) \<Rightarrow> (Inl e, s1)
      | (Inr b, s1) \<Rightarrow>
          if b then (Inr True, s1)
          else any_admin_group_contains env user_id rest s1)"

definition is_user_admin ::
  "environment \<Rightarrow> string \<Rightarrow> rbac_manager \<Rightarrow> (exn + bool) \<times> rbac_manager" where
  "is_user_admin env user_id s =
     (if user_id \<in> set (admin_users s) then (Inr True, s)
      else
        case any_admin_entry_resolves env user_id (admin_users s) s of
          (Inl e, s1) \<Rightarrow> (Inl e, s1)
        | (Inr True, s1) \<Rightarrow> (Inr True, s1)
        | (Inr False, s1) \<Rightarrow> any_admin_group_contains env user_id (admin_groups s1) s1)"

subsection \<open>notify_admin_of_denied_access\<close>

text \<open>
  The loop over \<open>self.admin_users\<close> inside the outer \<open>try\<close>: a \<open>SlackApiError\<close> is logged
  and the loop goes on; any other exception leaves the loop and is logged by the outer
  handler. Nothing is raised to the caller.
\<close>

fun post_to_admins ::
  "environment \<Rightarrow> alert \<Rightarrow> string list \<Rightarrow> rbac_manager \<Rightarrow> rbac_manager" where
  "post_to_admins env message [] s = s"
| "post_to_admins env message (admin_user # rest) s =
     (case chat_postMessage env (calls s) admin_user message of
        Inl (SlackApiError m) \<Rightarrow>
          post_to_admins env message rest
            (emit (LogErrorNotifyingAdmin admin_user (SlackApiError m))
               (issue (ChatPostMessage admin_user message) s))
      | Inl (OtherException m) \<Rightarrow>
          emit (LogErrorAdminNotification (OtherException m))
            (issue (ChatPostMessage admin_user message) s)
      | Inr _ \<Rightarrow>
          post_to_admins env message rest (issue (ChatPostMessage admin_user message) s))"

definition notify_admin_of_denied_access ::
  "environment \<Rightarrow> string \<Rightarrow> string \<Rightarrow> rbac_manager \<Rightarrow> rbac_manager" where
  "notify_admin_of_denied_access env user_id operation s =
     (case users_info env (calls s) user_id of
        Inl e \<Rightarrow> emit (LogErrorAdminNotification e) (issue (UsersInfo user_id) s)
      | Inr user_info \<Rightarrow>
          post_to_admins env
            \<lparr>alert_username = (if ui_ok user_info then ui_user_name user_info else user_id),
             alert_user_id = user_id,
             alert_operation = operation,
             alert_time = now env (ticks s)\<rparr>
            (admin_users s)
            (tick (issue (UsersInfo user_id) s)))"

subsection \<open>check_user_permission\<close>

definition log_attempt :: "string \<Rightarrow> string \<Rightarrow> rbac_manager \<Rightarrow> rbac_manager" where
  "log_attempt user_id operation s =
     (if log_access_attempts s then emit (LogPermissionCheck user_id operation) s else s)"

definition check_user_permission ::
  "environment \<Rightarrow> string \<Rightarrow> string \<Rightarrow> string option \<Rightarrow> rbac_manager
     \<Rightarrow> (exn + decision) \<times> rbac_manager" where
  "check_user_permission env user_id operation target_user s =
     (if \<not> rbac_enabled s then (Inr \<lparr>allowed = True, reason = ''RBAC disabled''\<rparr>, s)
      else if operation \<in> self_service_operations s \<and> target_user = Some user_id
      then (Inr \<lparr>allowed = True, reason = ''Self-service operation''\<rparr>,
            log_attempt user_id operation s)
      else
        case is_user_admin env user_id (log_attempt user_id operation s) of
          (Inl e, s1) \<Rightarrow> (Inl e, s1)
        | (Inr True, s1) \<Rightarrow> (Inr \<lparr>allowed = True, reason = ''Admin user''\<rparr>, s1)
        | (Inr False, s1) \<Rightarrow>
            if operation \<in> user_operations s1
            then (Inr \<lparr>allowed = True, reason = ''User operation''\<rparr>, s1)
            else if operation \<in> admin_operations s1
            then (Inr \<lparr>allowed = False, reason = ''Admin privileges required''\<rparr>,
                  if notify_admin_on_denied s1
                  then notify_admin_of_denied_access env user_id operation s1
                  else s1)
            else (Inr \<lparr>allowed = False, reason = ''Unknown operation''\<rparr>, s1))"

subsection \<open>clear_cache and update_configuration\<close>

definition clear_cache :: "rbac_manager \<Rightarrow> rbac_manager" where
  "clear_cache s = emit LogCacheCleared (s\<lparr>group_membership_cache := Map.empty\<rparr>)"

text \<open>
  \<open>set(value)\<close> of a list keeps its distinct elements; of a \<open>bool\<close> it raises
  \<open>TypeError\<close>. \<open>rbac_enabled\<close> is only ever tested for truth, so a list assigned to it
  is kept as its truth value.
\<close>

fun apply_update ::
  "string \<times> config_value \<Rightarrow> rbac_manager \<Rightarrow> exn + rbac_manager" where
  "apply_update (key, value) s =
     (if key = ''admin_users'' then
        (case value of StrList xs \<Rightarrow> Inr (s\<lparr>admin_users := remdups xs\<rparr>)
                     | BoolVal _ \<Rightarrow> Inl (OtherException ''TypeError''))
      else if key = ''admin_groups'' then
        (case value of StrList xs \<Rightarrow> Inr (s\<lparr>admin_groups := remdups xs\<rparr>)
                     | BoolVal _ \<Rightarrow> Inl (OtherException ''TypeError''))
      else if key = ''admin_operations'' then
        (case value of StrList xs \<Rightarrow> Inr (s\<lparr>admin_operations := set xs\<rparr>)
                     | BoolVal _ \<Rightarrow> Inl (OtherException ''TypeError''))
      else if key = ''user_operations'' then
        (case value of StrList xs \<Rightarrow> Inr (s\<lparr>user_operations := set xs\<rparr>)
                     | BoolVal _ \<Rightarrow> Inl (OtherException ''TypeError''))
      else if key = ''rbac_enabled'' then
        (case value of StrList xs \<Rightarrow> Inr (s\<lparr>rbac_enabled := (xs \<noteq> [])\<rparr>)
                     | BoolVal b \<Rightarrow> Inr (s\<lparr>rbac_enabled := b\<rparr>))
      else Inr s)"

fun apply_updates ::
  "(string \<times> config_value) list \<Rightarrow> rbac_manager \<Rightarrow> exn + rbac_manager" where
  "apply_updates [] s = Inr s"
| "apply_updates (kv # rest) s =
     (case apply_update kv s of Inl e \<Rightarrow> Inl e | Inr s1 \<Rightarrow> apply_updates rest s1)"

definition update_configuration ::
  "(string \<times> config_value) list \<Rightarrow> rbac_manager \<Rightarrow> exn + rbac_manager" where
  "update_configuration config_updates s =
     (case apply_updates config_updates s of
        Inl e \<Rightarrow> Inl e
      | Inr s1 \<Rightarrow>
          Inr ((emit (LogConfigurationUpdated config_updates) s1)
                 \<lparr>group_membership_cache := Map.empty\<rparr>))"

subsection \<open>The policy fields\<close>

text \<open>The fields that only \<open>load_configuration\<close> and \<open>update_configuration\<close> assign.\<close>

record policy =
  p_enabled :: bool
  p_admin_users :: "string list"
  p_admin_groups :: "string list"
  p_admin_operations :: "string set"
  p_user_operations :: "string set"
  p_self_service_operations :: "string set"
  p_notify :: bool
  p_log :: bool

definition policy_of :: "rbac_manager \<Rightarrow> policy" where
  "policy_of s =
     \<lparr>p_enabled = rbac_enabled s, p_admin_users = admin_users s,
      p_admin_groups = admin_groups s, p_admin_operations = admin_operations s,
      p_user_operations = user_operations s,
      p_self_service_operations = self_service_operations s,
      p_notify = notify_admin_on_denied s, p_log = log_access_attempts s\<rparr>"

subsection \<open>The precedence of the specification\<close>

text \<open>
  The six rules of the specification, in its words and its order, over the five facts
  they test: the policy is enabled, the operation is self-service with the identity as
  its own target, the identity is an admin, the operation is a user operation, the
  operation is an admin operation.
\<close>

definition precedence_decision :: "bool \<Rightarrow> bool \<Rightarrow> bool \<Rightarrow> bool \<Rightarrow> bool \<Rightarrow> decision" where
  "precedence_decision enabled self_service is_admin user_op admin_op =
     (if \<not> enabled then \<lparr>allowed = True, reason = ''RBAC disabled''\<rparr>
      else if self_service then \<lparr>allowed = True, reason = ''Self-service operation''\<rparr>
      else if is_admin then \<lparr>allowed = True, reason = ''Admin user''\<rparr>
      else if user_op then \<lparr>allowed = True, reason = ''User operation''\<rparr>
      else if admin_op then \<lparr>allowed = False, reason = ''Admin privileges required''\<rparr>
      else \<lparr>allowed = False, reason = ''Unknown operation''\<rparr>)"

subsection \<open>Reading the log and the calls\<close>

fun is_permission_check :: "log_record \<Rightarrow> bool" where
  "is_permission_check (LogPermissionCheck user_id operation) = True"
| "is_permission_check r = False"

fun is_notification_call :: "api_call \<Rightarrow> bool" where
  "is_notification_call (UsersInfo user_id) = True"
| "is_notification_call (ChatPostMessage channel message) = True"
| "is_notification_call c = False"

fun is_chat_post :: "api_call \<Rightarrow> bool" where
  "is_chat_post (ChatPostMessage channel message) = True"
| "is_chat_post c = False"

text \<open>\<open>ys\<close> is \<open>xs\<close> with elements appended that all satisfy \<open>P\<close>.\<close>

definition extends_by :: "('a \<Rightarrow> bool) \<Rightarrow> 'a list \<Rightarrow> 'a list \<Rightarrow> bool" where
  "extends_by P xs ys \<longleftrightarrow> (\<exists>rest. ys = xs @ rest \<and> list_all P rest)"

text \<open>A method that logs no permission check and makes no notification call.\<close>

abbreviation quiet :: "rbac_manager \<Rightarrow> rbac_manager \<Rightarrow> bool" where
  "quiet s s' \<equiv>
     extends_by (\<lambda>r. \<not> is_permission_check r) (log s) (log s') \<and>
     extends_by (\<lambda>c. \<not> is_notification_call c) (calls s) (calls s')"

subsection \<open>Exceptions of the directory\<close>


subsection \<open>Concrete managers and environments\<close>

text \<open>
  The manager as \<open>__init__\<close> and the environment branch of \<open>load_configuration\<close> leave
  it when no variable is set: no admins, the default operation sets, empty caches.
\<close>

definition env_default_manager :: rbac_manager where
  "env_default_manager =
     \<lparr>rbac_enabled = True, admin_users = [], admin_groups = [],
      admin_operations =
        {''create_cluster'', ''create_user'', ''reset_password'', ''create_index'',
         ''insert_document'', ''update_document'', ''delete_document'',
         ''drop_collection'', ''drop_database'', ''manage_indexes''},
      user_operations =
        {''list_clusters'', ''list_databases'', ''list_collections'', ''schema_analysis'',
         ''analyze_performance'', ''slow_queries'', ''missing_indexes'',
         ''collection_stats'', ''database_stats'', ''help''},
      self_service_operations =
        {''reset_own_password'', ''view_own_user_info'', ''add_ip_whitelist''},
      notify_admin_on_denied = True, log_access_attempts = True,
      group_membership_cache = Map.empty, username_to_id_cache = Map.empty,
      calls = [], ticks = 0, log = []\<rparr>"

text \<open>A directory where every call fails with \<open>SlackApiError\<close>; the clock starts at 1000.\<close>

definition outage_env :: environment where
  "outage_env =
     \<lparr>users_list = (\<lambda>h. Inl (SlackApiError ''outage'')),
      users_lookupByEmail = (\<lambda>h email. Inl (SlackApiError ''outage'')),
      usergroups_list = (\<lambda>h. Inl (SlackApiError ''outage'')),
      usergroups_users_list = (\<lambda>h g. Inl (SlackApiError ''outage'')),
      users_info = (\<lambda>h u. Inl (SlackApiError ''outage'')),
      chat_postMessage = (\<lambda>h c m. Inl (SlackApiError ''outage'')),
      now = (\<lambda>n. 1000 + real n)\<rparr>"

text \<open>
  A directory that answers: one user, alice, with the ID \<open>U0000000002\<close>; one user
  group, dba-team, whose only member is \<open>U0000000004\<close>; no user is found by email.
\<close>

definition alice :: slack_user where
  "alice =
     \<lparr>u_id = ''U0000000002'', u_deleted = Some False, u_name = Some ''alice'',
      u_real_name = Some ''Alice Liddell'', u_display_name = None,
      u_profile = Some \<lparr>profile_display_name = Some ''ali'',
                        profile_real_name = Some ''Alice Liddell''\<rparr>\<rparr>"

definition directory_env :: environment where
  "directory_env =
     \<lparr>users_list = (\<lambda>h. Inr \<lparr>ul_ok = True, ul_members = [alice]\<rparr>),
      users_lookupByEmail = (\<lambda>h email. Inl (SlackApiError ''users_not_found'')),
      usergroups_list =
        (\<lambda>h. Inr \<lparr>gl_ok = True,
                   gl_usergroups = [\<lparr>g_handle = ''dba-team'', g_id = ''S0000000001''\<rparr>]\<rparr>),
      usergroups_users_list = (\<lambda>h g. Inr \<lparr>gm_ok = True, gm_users = [''U0000000004'']\<rparr>),
      users_info = (\<lambda>h u. Inr \<lparr>ui_ok = True, ui_user_name = ''bob''\<rparr>),
      chat_postMessage = (\<lambda>h c m. Inr ()),
      now = (\<lambda>n. 1000 + real n)\<rparr>"

text \<open>The default manager with one admin handle and one admin group configured.\<close>

definition team_manager :: rbac_manager where
  "team_manager = env_default_manager\<lparr>admin_users := [''@alice''], admin_groups := [''dba-team'']\<rparr>"

text \<open>
  The manager after a first permission check of the group member: the resolution of
  \<open>@alice\<close> and the membership of \<open>U0000000004\<close> in dba-team are both cached.
\<close>

definition warm_manager :: rbac_manager where
  "warm_manager =
     snd (check_user_permission directory_env ''U0000000004'' ''create_cluster'' None
            team_manager)"


section \<open>Properties\<close>

subsection \<open>No method but the configuration update assigns a policy field\<close>

lemma policy_of_issue [simp]: "policy_of (issue c s) = policy_of s"
  by (simp add: policy_of_def issue_def)

lemma policy_of_emit [simp]: "policy_of (emit r s) = policy_of s"
  by (simp add: policy_of_def emit_def)

lemma policy_of_tick [simp]: "policy_of (tick s) = policy_of s"
  by (simp add: policy_of_def tick_def)

lemma policy_of_gcache [simp]:
  "policy_of (s\<lparr>group_membership_cache := g\<rparr>) = policy_of s"
  by (simp add: policy_of_def)

lemma policy_of_ucache [simp]:
  "policy_of (s\<lparr>username_to_id_cache := u\<rparr>) = policy_of s"
  by (simp add: policy_of_def)

lemma policy_of_fields:
  assumes "policy_of s' = policy_of s"
  shows "rbac_enabled s' = rbac_enabled s" "admin_users s' = admin_users s"
    "admin_groups s' = admin_groups s" "admin_operations s' = admin_operations s"
    "user_operations s' = user_operations s"
    "self_service_operations s' = self_service_operations s"
    "notify_admin_on_denied s' = notify_admin_on_denied s"
    "log_access_attempts s' = log_access_attempts s"
  using assms by (simp_all add: policy_of_def)

lemma lookup_by_email_policy:
  "lookup_by_email env username s = (r, s') \<Longrightarrow> policy_of s' = policy_of s"
  by (auto simp: lookup_by_email_def Let_def split: sum.splits exn.splits if_splits)

lemma resolve_username_policy:
  "resolve_username_to_user_id env username s = (r, s') \<Longrightarrow> policy_of s' = policy_of s"
  by (auto simp: resolve_username_to_user_id_def Let_def
           split: sum.splits exn.splits option.splits if_splits
           dest!: lookup_by_email_policy)

lemma cached_user_id_policy:
  "cached_user_id env k s = (r, s') \<Longrightarrow> policy_of s' = policy_of s"
  by (auto simp: cached_user_id_def split: option.splits)

lemma resolve_and_cache_policy:
  "resolve_and_cache env username s = (r, s') \<Longrightarrow> policy_of s' = policy_of s"
  by (auto simp: resolve_and_cache_def
           split: prod.splits sum.splits option.splits if_splits
           dest!: resolve_username_policy)

lemma resolve_admin_entry_policy:
  "resolve_admin_entry_to_user_id env admin_entry s = (r, s') \<Longrightarrow> policy_of s' = policy_of s"
  by (auto simp: resolve_admin_entry_to_user_id_def
           split: prod.splits option.splits if_splits
           dest!: cached_user_id_policy resolve_and_cache_policy)

lemma scan_usergroups_policy:
  "scan_usergroups env user_id group_name ugs s = (r, s') \<Longrightarrow> policy_of s' = policy_of s"
  by (induction ugs arbitrary: s) (auto split: sum.splits if_splits)

lemma query_group_policy:
  "query_group env user_id group_name s = (r, s') \<Longrightarrow> policy_of s' = policy_of s"
  by (auto simp: query_group_def split: sum.splits if_splits dest!: scan_usergroups_policy)

lemma cached_membership_policy:
  "cached_membership env k s = (r, s') \<Longrightarrow> policy_of s' = policy_of s"
  by (auto simp: cached_membership_def split: option.splits)

lemma is_user_in_group_policy:
  "is_user_in_group env user_id group_name s = (r, s') \<Longrightarrow> policy_of s' = policy_of s"
  by (auto simp: is_user_in_group_def
           split: prod.splits sum.splits option.splits exn.splits
           dest!: cached_membership_policy query_group_policy)

lemma any_admin_entry_resolves_policy:
  "any_admin_entry_resolves env user_id entries s = (r, s') \<Longrightarrow> policy_of s' = policy_of s"
  by (induction entries arbitrary: s)
     (auto split: prod.splits sum.splits if_splits dest!: resolve_admin_entry_policy)

lemma any_admin_group_contains_policy:
  "any_admin_group_contains env user_id groups s = (r, s') \<Longrightarrow> policy_of s' = policy_of s"
  by (induction groups arbitrary: s)
     (auto split: prod.splits sum.splits if_splits dest!: is_user_in_group_policy)

lemma is_user_admin_policy:
  "is_user_admin env user_id s = (r, s') \<Longrightarrow> policy_of s' = policy_of s"
  by (auto simp: is_user_admin_def split: prod.splits sum.splits bool.splits if_splits
           dest!: any_admin_entry_resolves_policy any_admin_group_contains_policy)


subsection \<open>The decision and the admin test\<close>

lemma log_attempt_policy [simp]: "policy_of (log_attempt u operation s) = policy_of s"
  by (simp add: log_attempt_def)

lemma check_user_permission_result:
  assumes "check_user_permission env user_id operation target_user s = (Inr d, s')"
  shows "d = precedence_decision (rbac_enabled s)
              (operation \<in> self_service_operations s \<and> target_user = Some user_id)
              (fst (is_user_admin env user_id (log_attempt user_id operation s)) = Inr True)
              (operation \<in> user_operations s) (operation \<in> admin_operations s)"
proof (cases "\<not> rbac_enabled s \<or> (operation \<in> self_service_operations s \<and> target_user = Some user_id)")
  case True
  with assms show ?thesis
    by (auto simp: check_user_permission_def precedence_decision_def)
next
  case False
  obtain r s1 where eq: "is_user_admin env user_id (log_attempt user_id operation s) = (r, s1)"
    by (cases "is_user_admin env user_id (log_attempt user_id operation s)")
  from is_user_admin_policy [OF eq] have "policy_of s1 = policy_of s"
    by simp
  note f = policy_of_fields [OF this]
  from assms False eq show ?thesis
    by (auto simp: check_user_permission_def precedence_decision_def f
             split: sum.splits bool.splits if_splits)
qed

lemma any_admin_entry_resolves_append:
  "any_admin_entry_resolves env user_id (pre @ rest) s =
     (case any_admin_entry_resolves env user_id pre s of
        (Inr False, s1) \<Rightarrow> any_admin_entry_resolves env user_id rest s1
      | other \<Rightarrow> other)"
  by (induction pre arbitrary: s) (auto split: prod.splits sum.splits bool.splits)

lemma any_admin_entry_resolves_True_iff:
  "fst (any_admin_entry_resolves env user_id entries s) = Inr True \<longleftrightarrow>
     (\<exists>pre e post. entries = pre @ e # post \<and>
        fst (any_admin_entry_resolves env user_id pre s) = Inr False \<and>
        fst (resolve_admin_entry_to_user_id env e
               (snd (any_admin_entry_resolves env user_id pre s))) = Inr (Some user_id))"
  (is "?L entries s \<longleftrightarrow> ?R entries s")
proof
  show "?L entries s \<Longrightarrow> ?R entries s"
  proof (induction entries arbitrary: s)
    case Nil
    then show ?case by simp
  next
    case (Cons a rest)
    obtain r s1 where eq: "resolve_admin_entry_to_user_id env a s = (r, s1)"
      by (cases "resolve_admin_entry_to_user_id env a s")
    show ?case
    proof (cases "r = Inr (Some user_id)")
      case True
      with eq have "a # rest = [] @ a # rest \<and>
          fst (any_admin_entry_resolves env user_id [] s) = Inr False \<and>
          fst (resolve_admin_entry_to_user_id env a
                 (snd (any_admin_entry_resolves env user_id [] s))) = Inr (Some user_id)"
        by simp
      then show ?thesis by blast
    next
      case False
      with Cons.prems eq have "?L rest s1"
        by (auto split: sum.splits if_splits)
      from Cons.IH [OF this] obtain pre e post where
        p: "rest = pre @ e # post"
           "fst (any_admin_entry_resolves env user_id pre s1) = Inr False"
           "fst (resolve_admin_entry_to_user_id env e
                   (snd (any_admin_entry_resolves env user_id pre s1))) = Inr (Some user_id)"
        by blast
      from False Cons.prems eq have step:
        "any_admin_entry_resolves env user_id (a # pre) s
           = any_admin_entry_resolves env user_id pre s1"
        by (auto split: sum.splits if_splits)
      have "a # rest = (a # pre) @ e # post" using p(1) by simp
      with p(2,3) step show ?thesis
        by metis
    qed
  qed
next
  assume "?R entries s"
  then obtain pre e post where
    p: "entries = pre @ e # post"
       "fst (any_admin_entry_resolves env user_id pre s) = Inr False"
       "fst (resolve_admin_entry_to_user_id env e
               (snd (any_admin_entry_resolves env user_id pre s))) = Inr (Some user_id)"
    by blast
  then show "?L entries s"
    by (auto simp: any_admin_entry_resolves_append split: prod.splits sum.splits bool.splits)
qed

lemma any_admin_group_contains_append:
  "any_admin_group_contains env user_id (pre @ rest) s =
     (case any_admin_group_contains env user_id pre s of
        (Inr False, s1) \<Rightarrow> any_admin_group_contains env user_id rest s1
      | other \<Rightarrow> other)"
  by (induction pre arbitrary: s) (auto split: prod.splits sum.splits bool.splits)

lemma any_admin_group_contains_True_iff:
  "fst (any_admin_group_contains env user_id groups s) = Inr True \<longleftrightarrow>
     (\<exists>pre g post. groups = pre @ g # post \<and>
        fst (any_admin_group_contains env user_id pre s) = Inr False \<and>
        fst (is_user_in_group env user_id g
               (snd (any_admin_group_contains env user_id pre s))) = Inr True)"
  (is "?L groups s \<longleftrightarrow> ?R groups s")
proof
  show "?L groups s \<Longrightarrow> ?R groups s"
  proof (induction groups arbitrary: s)
    case Nil
    then show ?case by simp
  next
    case (Cons a rest)
    obtain r s1 where eq: "is_user_in_group env user_id a s = (r, s1)"
      by (cases "is_user_in_group env user_id a s")
    show ?case
    proof (cases "r = Inr True")
      case True
      with eq have "a # rest = [] @ a # rest \<and>
          fst (any_admin_group_contains env user_id [] s) = Inr False \<and>
          fst (is_user_in_group env user_id a
                 (snd (any_admin_group_contains env user_id [] s))) = Inr True"
        by simp
      then show ?thesis by blast
    next
      case False
      with Cons.prems eq have "?L rest s1"
        by (auto split: sum.splits if_splits)
      from Cons.IH [OF this] obtain pre g post where
        p: "rest = pre @ g # post"
           "fst (any_admin_group_contains env user_id pre s1) = Inr False"
           "fst (is_user_in_group env user_id g
                   (snd (any_admin_group_contains env user_id pre s1))) = Inr True"
        by blast
      from False Cons.prems eq have step:
        "any_admin_group_contains env user_id (a # pre) s
           = any_admin_group_contains env user_id pre s1"
        by (auto split: sum.splits if_splits)
      have "a # rest = (a # pre) @ g # post" using p(1) by simp
      with p(2,3) step show ?thesis
        by metis
    qed
  qed
next
  assume "?R groups s"
  then obtain pre g post where
    p: "groups = pre @ g # post"
       "fst (any_admin_group_contains env user_id pre s) = Inr False"
       "fst (is_user_in_group env user_id g
               (snd (any_admin_group_contains env user_id pre s))) = Inr True"
    by blast
  then show "?L groups s"
    by (auto simp: any_admin_group_contains_append split: prod.splits sum.splits bool.splits)
qed

lemma is_user_admin_True_iff:
  "fst (is_user_admin env user_id s) = Inr True \<longleftrightarrow>
     user_id \<in> set (admin_users s)
   \<or> fst (any_admin_entry_resolves env user_id (admin_users s) s) = Inr True
   \<or> (fst (any_admin_entry_resolves env user_id (admin_users s) s) = Inr False \<and>
      fst (any_admin_group_contains env user_id (admin_groups s)
             (snd (any_admin_entry_resolves env user_id (admin_users s) s))) = Inr True)"
proof -
  obtain r s1 where eq: "any_admin_entry_resolves env user_id (admin_users s) s = (r, s1)"
    by (cases "any_admin_entry_resolves env user_id (admin_users s) s")
  from any_admin_entry_resolves_policy [OF eq] have "policy_of s1 = policy_of s" .
  note f = policy_of_fields [OF this]
  show ?thesis
    by (auto simp: is_user_admin_def eq f split: sum.splits bool.splits)
qed


subsection \<open>Evaluating the concrete managers and environments\<close>

lemmas method_defs =
  check_user_permission_def log_attempt_def is_user_admin_def
  resolve_admin_entry_to_user_id_def is_user_id_format_def lstrip_at_def username_key_def
  cached_user_id_def resolve_and_cache_def resolve_username_to_user_id_def
  lookup_by_email_def user_matches_def get_or_def lower_def lower_char_def
  is_user_in_group_def group_key_def cached_membership_def query_group_def
  notify_admin_of_denied_access_def clear_cache_def update_configuration_def
  issue_def emit_def tick_def cache_ttl_def

lemmas example_defs =
  env_default_manager_def team_manager_def outage_env_def directory_env_def alice_def

subsection \<open>C1: the precedence of the six rules\<close>

text \<open>
  C1. The result of \<open>check_user_permission\<close> is the first matching rule of the
  specification's sequence, \<open>precedence_decision\<close>, applied to: the policy is enabled;
  the operation is self-service and the target is the identity; \<open>is_user_admin\<close>
  answers true; the operation is a user operation; the operation is an admin operation.
  An exception leaves the method only where the admin test of rule 3 is reached and
  raises it. The admin test answers true exactly when the identity is listed in
  \<open>admin_users\<close>, or an entry of \<open>admin_users\<close> resolves to it when its turn comes, or
  it is a member of a group of \<open>admin_groups\<close> when that group's turn comes. So an
  operation in both \<open>user_operations\<close> and \<open>admin_operations\<close> is allowed to a non-admin
  as a user operation, and an admin is allowed as "Admin user" whatever the operation.
\<close>

theorem check_user_permission_precedence:
  "(let self_service = (operation \<in> self_service_operations s \<and> target_user = Some user_id);
        admin = fst (is_user_admin env user_id (log_attempt user_id operation s))
    in fst (check_user_permission env user_id operation target_user s) =
         (case admin of
            Inl e \<Rightarrow>
              if rbac_enabled s \<and> \<not> self_service then Inl e
              else Inr (precedence_decision (rbac_enabled s) self_service False
                          (operation \<in> user_operations s) (operation \<in> admin_operations s))
          | Inr is_admin \<Rightarrow>
              Inr (precedence_decision (rbac_enabled s) self_service is_admin
                     (operation \<in> user_operations s) (operation \<in> admin_operations s))) \<and>
       (rbac_enabled s \<and> \<not> self_service \<and> admin = Inr False \<and>
        operation \<in> user_operations s \<and> operation \<in> admin_operations s \<longrightarrow>
          fst (check_user_permission env user_id operation target_user s) =
            Inr \<lparr>allowed = True, reason = ''User operation''\<rparr>) \<and>
       (rbac_enabled s \<and> \<not> self_service \<and> admin = Inr True \<longrightarrow>
          fst (check_user_permission env user_id operation target_user s) =
            Inr \<lparr>allowed = True, reason = ''Admin user''\<rparr>)) \<and>
   (fst (is_user_admin env user_id s) = Inr True \<longleftrightarrow>
      user_id \<in> set (admin_users s)
    \<or> (\<exists>pre e post. admin_users s = pre @ e # post \<and>
          fst (any_admin_entry_resolves env user_id pre s) = Inr False \<and>
          fst (resolve_admin_entry_to_user_id env e
                 (snd (any_admin_entry_resolves env user_id pre s))) = Inr (Some user_id))
    \<or> (fst (any_admin_entry_resolves env user_id (admin_users s) s) = Inr False \<and>
        (\<exists>pre g post. admin_groups s = pre @ g # post \<and>
           fst (any_admin_group_contains env user_id pre
                  (snd (any_admin_entry_resolves env user_id (admin_users s) s))) = Inr False \<and>
           fst (is_user_in_group env user_id g
                  (snd (any_admin_group_contains env user_id pre
                          (snd (any_admin_entry_resolves env user_id (admin_users s) s)))))
             = Inr True)))"
proof -
  let ?s0 = "log_attempt user_id operation s"
  obtain r s1 where eq: "is_user_admin env user_id ?s0 = (r, s1)"
    by (cases "is_user_admin env user_id ?s0")
  from is_user_admin_policy [OF eq] have "policy_of s1 = policy_of s"
    by simp
  note f = policy_of_fields [OF this]
  have first: "fst (check_user_permission env user_id operation target_user s) =
      (case r of
         Inl e \<Rightarrow>
           if rbac_enabled s \<and>
              \<not> (operation \<in> self_service_operations s \<and> target_user = Some user_id)
           then Inl e
           else Inr (precedence_decision (rbac_enabled s)
                       (operation \<in> self_service_operations s \<and> target_user = Some user_id)
                       False (operation \<in> user_operations s) (operation \<in> admin_operations s))
       | Inr is_admin \<Rightarrow>
           Inr (precedence_decision (rbac_enabled s)
                  (operation \<in> self_service_operations s \<and> target_user = Some user_id)
                  is_admin (operation \<in> user_operations s) (operation \<in> admin_operations s)))"
    by (auto simp: check_user_permission_def precedence_decision_def eq f
             split: sum.splits bool.splits)
  have admin: "fst (is_user_admin env user_id s) = Inr True \<longleftrightarrow>
      user_id \<in> set (admin_users s)
    \<or> (\<exists>pre e post. admin_users s = pre @ e # post \<and>
          fst (any_admin_entry_resolves env user_id pre s) = Inr False \<and>
          fst (resolve_admin_entry_to_user_id env e
                 (snd (any_admin_entry_resolves env user_id pre s))) = Inr (Some user_id))
    \<or> (fst (any_admin_entry_resolves env user_id (admin_users s) s) = Inr False \<and>
        (\<exists>pre g post. admin_groups s = pre @ g # post \<and>
           fst (any_admin_group_contains env user_id pre
                  (snd (any_admin_entry_resolves env user_id (admin_users s) s))) = Inr False \<and>
           fst (is_user_in_group env user_id g
                  (snd (any_admin_group_contains env user_id pre
                          (snd (any_admin_entry_resolves env user_id (admin_users s) s)))))
             = Inr True))"
    unfolding is_user_admin_True_iff any_admin_entry_resolves_True_iff
      any_admin_group_contains_True_iff ..
  have "fst (is_user_admin env user_id ?s0) = r"
    by (simp add: eq)
  with first admin show ?thesis
    by (simp add: Let_def precedence_decision_def)
qed

theorem check_user_permission_precedence_witness:
  "fst (is_user_admin directory_env ''U0000000002'' team_manager) = Inr True \<and>
   ''list_clusters'' \<in> user_operations team_manager \<and>
   fst (check_user_permission directory_env ''U0000000002'' ''list_clusters'' None team_manager)
     = Inr \<lparr>allowed = True, reason = ''Admin user''\<rparr> \<and>
   fst (check_user_permission directory_env ''U0000000005'' ''create_cluster'' None team_manager)
     = Inr \<lparr>allowed = False, reason = ''Admin privileges required''\<rparr>"
proof -
  have a: "fst (is_user_admin directory_env ''U0000000002''
                  (log_attempt ''U0000000002'' ''list_clusters'' team_manager)) = Inr True"
    by (simp add: method_defs example_defs)
  have b: "fst (is_user_admin directory_env ''U0000000005''
                  (log_attempt ''U0000000005'' ''create_cluster'' team_manager)) = Inr False"
    by (simp add: method_defs example_defs)
  have c: "fst (is_user_admin directory_env ''U0000000002'' team_manager) = Inr True"
    by (simp add: method_defs example_defs)
  have p: "rbac_enabled team_manager" "''list_clusters'' \<in> user_operations team_manager"
    "''create_cluster'' \<in> admin_operations team_manager"
    "''create_cluster'' \<notin> user_operations team_manager"
    "''create_cluster'' \<notin> self_service_operations team_manager"
    by (simp_all add: example_defs)
  show ?thesis
    using
      check_user_permission_precedence
        [of "''list_clusters''" team_manager None "''U0000000002''" directory_env]
      check_user_permission_precedence
        [of "''create_cluster''" team_manager None "''U0000000005''" directory_env]
    by (simp add: a b c p Let_def precedence_decision_def)
qed

subsection \<open>C7: the self-service rule and an omitted target\<close>

text \<open>
  C7, as stated, fails: with the target omitted the comparison \<open>target_user == user_id\<close>
  is false, so a self-service operation of a non-admin falls through to the last rule.
\<close>

theorem self_service_target_omitted_counterexample:
  "rbac_enabled env_default_manager \<and>
   ''reset_own_password'' \<in> self_service_operations env_default_manager \<and>
   fst (check_user_permission outage_env ''U0000000003'' ''reset_own_password'' None
          env_default_manager)
     = Inr \<lparr>allowed = False, reason = ''Unknown operation''\<rparr>"
  by (simp add: env_default_manager_def check_user_permission_def is_user_admin_def
        log_attempt_def emit_def)

text \<open>
  C7, amended. With RBAC enabled and the operation in \<open>self_service_operations\<close>, a call
  whose target is the identity is allowed with reason "Self-service operation". A call
  with the target omitted never matches the self-service rule: whatever it returns is
  what the admin, user-operation, admin-operation and unknown-operation rules give, and
  its reason is never "Self-service operation".
\<close>

theorem self_service_needs_target:
  assumes "rbac_enabled s" and "operation \<in> self_service_operations s"
  shows "fst (check_user_permission env user_id operation (Some user_id) s)
           = Inr \<lparr>allowed = True, reason = ''Self-service operation''\<rparr> \<and>
         (\<forall>d. fst (check_user_permission env user_id operation None s) = Inr d \<longrightarrow>
            d = precedence_decision True False
                  (fst (is_user_admin env user_id (log_attempt user_id operation s)) = Inr True)
                  (operation \<in> user_operations s) (operation \<in> admin_operations s) \<and>
            reason d \<noteq> ''Self-service operation'')"
proof (intro conjI allI impI)
  show "fst (check_user_permission env user_id operation (Some user_id) s)
          = Inr \<lparr>allowed = True, reason = ''Self-service operation''\<rparr>"
    using assms by (simp add: check_user_permission_def)
next
  fix d
  assume "fst (check_user_permission env user_id operation None s) = Inr d"
  then obtain s' where "check_user_permission env user_id operation None s = (Inr d, s')"
    by (cases "check_user_permission env user_id operation None s") simp
  from check_user_permission_result [OF this] assms
  show d: "d = precedence_decision True False
                 (fst (is_user_admin env user_id (log_attempt user_id operation s)) = Inr True)
                 (operation \<in> user_operations s) (operation \<in> admin_operations s)"
    by simp
  show "reason d \<noteq> ''Self-service operation''"
    unfolding d by (simp add: precedence_decision_def)
qed

theorem self_service_needs_target_witness:
  "rbac_enabled env_default_manager \<and>
   ''add_ip_whitelist'' \<in> self_service_operations env_default_manager \<and>
   fst (check_user_permission directory_env ''U0000000003'' ''add_ip_whitelist''
          (Some ''U0000000003'') env_default_manager)
     = Inr \<lparr>allowed = True, reason = ''Self-service operation''\<rparr>"
proof -
  have h: "rbac_enabled env_default_manager"
    "''add_ip_whitelist'' \<in> self_service_operations env_default_manager"
    by (simp_all add: env_default_manager_def)
  from self_service_needs_target [OF h, of directory_env "''U0000000003''"] h
  show ?thesis by simp
qed

subsection \<open>Directory calls of the resolution of an admin entry\<close>

lemma lookup_by_email_effect:
  assumes "lookup_by_email env username s = (r, s')"
  shows "s' = issue (UsersLookupByEmail username) s"
  using assms by (auto simp: lookup_by_email_def Let_def split: sum.splits exn.splits if_splits)

lemma resolve_username_effect:
  assumes "resolve_username_to_user_id env username s = (r, s')"
  shows "(calls s' = calls s @ [UsersList] \<or>
          calls s' = calls s @ [UsersList, UsersLookupByEmail username]) \<and>
         username_to_id_cache s' = username_to_id_cache s \<and>
         group_membership_cache s' = group_membership_cache s \<and>
         ticks s' = ticks s"
  using assms
  by (auto simp: resolve_username_to_user_id_def Let_def issue_def emit_def
           split: sum.splits exn.splits option.splits if_splits
           dest!: lookup_by_email_effect)

lemma cached_user_id_miss:
  assumes "cached_user_id env k s = (None, s0)"
  shows "calls s0 = calls s \<and> username_to_id_cache s0 = username_to_id_cache s \<and>
         (case username_to_id_cache s k of
            None \<Rightarrow> s0 = s
          | Some (uid, ts) \<Rightarrow> \<not> now env (ticks s) - ts < cache_ttl \<and> s0 = tick s)"
  using assms by (auto simp: cached_user_id_def tick_def split: option.splits if_splits)

lemma cached_user_id_hit:
  assumes "cached_user_id env k s = (Some uid, s0)"
  shows "s0 = tick s \<and>
         (\<exists>ts. username_to_id_cache s k = Some (uid, ts) \<and> now env (ticks s) - ts < cache_ttl)"
  using assms by (auto simp: cached_user_id_def split: option.splits if_splits)

lemma resolve_and_cache_None:
  assumes "resolve_and_cache env username s = (Inr None, s')"
  shows "resolve_username_to_user_id env username s = (Inr None, s')"
  using assms
  by (auto simp: resolve_and_cache_def split: prod.splits sum.splits option.splits if_splits)

lemma resolve_and_cache_None_iff:
  "fst (resolve_and_cache env username s) = Inr None \<longleftrightarrow>
   fst (resolve_username_to_user_id env username s) = Inr None"
  by (auto simp: resolve_and_cache_def split: prod.splits sum.splits option.splits if_splits)

lemma resolve_admin_entry_None:
  assumes "resolve_admin_entry_to_user_id env admin_entry s = (Inr None, s')"
  shows "\<not> is_user_id_format admin_entry \<and>
         (\<exists>s0. cached_user_id env (username_key (lstrip_at admin_entry)) s = (None, s0) \<and>
               resolve_username_to_user_id env (lstrip_at admin_entry) s0 = (Inr None, s'))"
  using assms
  by (auto simp: resolve_admin_entry_to_user_id_def
           split: prod.splits option.splits if_splits dest!: resolve_and_cache_None)

lemma resolve_and_cache_calls:
  assumes "resolve_and_cache env username s = (r, s')"
  shows "\<exists>cs. calls s' = calls s @ UsersList # cs \<and> UsersList \<notin> set cs"
proof -
  obtain r0 s1 where eq: "resolve_username_to_user_id env username s = (r0, s1)"
    by (cases "resolve_username_to_user_id env username s")
  from resolve_username_effect [OF eq]
  have "\<exists>cs. calls s1 = calls s @ UsersList # cs \<and> UsersList \<notin> set cs"
    by auto
  moreover from assms eq have "calls s' = calls s1"
    by (auto simp: resolve_and_cache_def tick_def split: sum.splits option.splits if_splits)
  ultimately show ?thesis by simp
qed

lemma resolve_admin_entry_miss_calls:
  assumes "\<not> is_user_id_format admin_entry"
    and "fst (cached_user_id env (username_key (lstrip_at admin_entry)) s) = None"
  shows "\<exists>cs. calls (snd (resolve_admin_entry_to_user_id env admin_entry s))
                = calls s @ UsersList # cs \<and> UsersList \<notin> set cs"
proof -
  let ?k = "username_key (lstrip_at admin_entry)"
  obtain s0 where c: "cached_user_id env ?k s = (None, s0)"
    using assms(2) by (cases "cached_user_id env ?k s") simp
  obtain r s' where eq: "resolve_and_cache env (lstrip_at admin_entry) s0 = (r, s')"
    by (cases "resolve_and_cache env (lstrip_at admin_entry) s0")
  from resolve_and_cache_calls [OF eq] cached_user_id_miss [OF c]
  show ?thesis
    using assms(1) by (simp add: resolve_admin_entry_to_user_id_def c eq)
qed

lemma cached_user_id_still_missing:
  assumes "fst (cached_user_id env k s) = None"
    and "username_to_id_cache s2 k = username_to_id_cache s k"
    and "now env (ticks s) \<le> now env (ticks s2)"
  shows "fst (cached_user_id env k s2) = None"
  using assms by (auto simp: cached_user_id_def split: option.splits if_splits)

subsection \<open>C10: a failed resolution is not cached\<close>

text \<open>
  C10. When an admin entry that is not in ID form misses the cache and
  \<open>resolve_username_to_user_id\<close> returns no user ID (a directory error or no matching
  user), \<open>resolve_admin_entry_to_user_id\<close> returns \<open>None\<close> and leaves the username
  cache as it was, having issued a \<open>users.list\<close> call; and every later attempt for the
  same entry, from any state whose cache entry for the handle is still that one and
  whose clock has not run backwards, issues a \<open>users.list\<close> call again.
\<close>

theorem failed_resolution_not_cached:
  assumes "\<not> is_user_id_format admin_entry"
    and "cached_user_id env (username_key (lstrip_at admin_entry)) s = (None, s0)"
    and "resolve_username_to_user_id env (lstrip_at admin_entry) s0 = (Inr None, s')"
  shows "resolve_admin_entry_to_user_id env admin_entry s = (Inr None, s') \<and>
         username_to_id_cache s' = username_to_id_cache s \<and>
         (\<exists>cs. calls s' = calls s @ UsersList # cs) \<and>
         (\<forall>s2. username_to_id_cache s2 (username_key (lstrip_at admin_entry))
                 = username_to_id_cache s' (username_key (lstrip_at admin_entry)) \<and>
               now env (ticks s) \<le> now env (ticks s2) \<longrightarrow>
               (\<exists>cs. calls (snd (resolve_admin_entry_to_user_id env admin_entry s2))
                       = calls s2 @ UsersList # cs))"
proof -
  let ?k = "username_key (lstrip_at admin_entry)"
  note fmt = assms(1) and c = assms(2) and r = assms(3)
  from fmt c r have res: "resolve_admin_entry_to_user_id env admin_entry s = (Inr None, s')"
    by (simp add: resolve_admin_entry_to_user_id_def resolve_and_cache_def)
  from cached_user_id_miss [OF c] resolve_username_effect [OF r]
  have cache: "username_to_id_cache s' = username_to_id_cache s"
    and calls: "\<exists>cs. calls s' = calls s @ UsersList # cs"
    by auto
  have again: "\<exists>cs. calls (snd (resolve_admin_entry_to_user_id env admin_entry s2))
                       = calls s2 @ UsersList # cs"
    if "username_to_id_cache s2 ?k = username_to_id_cache s' ?k"
      and "now env (ticks s) \<le> now env (ticks s2)" for s2
  proof -
    from c have "fst (cached_user_id env ?k s) = None" by simp
    from cached_user_id_still_missing [OF this _ that(2)] that(1) cache
    have "fst (cached_user_id env ?k s2) = None" by simp
    from resolve_admin_entry_miss_calls [OF fmt this] show ?thesis by blast
  qed
  from res cache calls again show ?thesis by simp
qed

theorem failed_resolution_not_cached_witness:
  "resolve_admin_entry_to_user_id outage_env ''@alice'' team_manager
     = (Inr None,
        emit (LogErrorResolvingUsername ''alice'' (SlackApiError ''outage''))
          (issue UsersList team_manager)) \<and>
   calls (snd (resolve_admin_entry_to_user_id outage_env ''@alice''
                 (emit (LogErrorResolvingUsername ''alice'' (SlackApiError ''outage''))
                    (issue UsersList team_manager))))
     = [UsersList, UsersList]"
proof -
  have a: "\<not> is_user_id_format ''@alice''"
    by (simp add: is_user_id_format_def)
  have b: "cached_user_id outage_env (username_key (lstrip_at ''@alice'')) team_manager
             = (None, team_manager)"
    by (simp add: method_defs example_defs)
  have c: "resolve_username_to_user_id outage_env (lstrip_at ''@alice'') team_manager
             = (Inr None,
                emit (LogErrorResolvingUsername ''alice'' (SlackApiError ''outage''))
                  (issue UsersList team_manager))"
    by (simp add: method_defs example_defs)
  have d: "calls (snd (resolve_admin_entry_to_user_id outage_env ''@alice''
                 (emit (LogErrorResolvingUsername ''alice'' (SlackApiError ''outage''))
                    (issue UsersList team_manager))))
     = [UsersList, UsersList]"
    by (simp add: method_defs example_defs)
  from failed_resolution_not_cached [OF a b c] d show ?thesis
    by simp
qed

subsection \<open>Cache hits and misses of the username cache\<close>


lemma resolve_admin_entry_hit:
  assumes "\<not> is_user_id_format admin_entry"
    and "username_to_id_cache s (username_key (lstrip_at admin_entry)) = Some (uid, ts)"
    and "now env (ticks s) - ts < cache_ttl"
  shows "resolve_admin_entry_to_user_id env admin_entry s = (Inr (Some uid), tick s)"
  using assms by (simp add: resolve_admin_entry_to_user_id_def cached_user_id_def)


subsection \<open>C9: a resolved handle is served from the cache within the TTL\<close>



subsection \<open>Effects of the group membership query\<close>

lemma issue_fields [simp]:
  "calls (issue c s) = calls s @ [c]" "log (issue c s) = log s" "ticks (issue c s) = ticks s"
  "group_membership_cache (issue c s) = group_membership_cache s"
  "username_to_id_cache (issue c s) = username_to_id_cache s"
  by (simp_all add: issue_def)

lemma emit_fields [simp]:
  "calls (emit r s) = calls s" "log (emit r s) = log s @ [r]" "ticks (emit r s) = ticks s"
  "group_membership_cache (emit r s) = group_membership_cache s"
  "username_to_id_cache (emit r s) = username_to_id_cache s"
  by (simp_all add: emit_def)

lemma tick_fields [simp]:
  "calls (tick s) = calls s" "log (tick s) = log s" "ticks (tick s) = Suc (ticks s)"
  "group_membership_cache (tick s) = group_membership_cache s"
  "username_to_id_cache (tick s) = username_to_id_cache s"
  by (simp_all add: tick_def)

lemma scan_usergroups_effect:
  assumes "scan_usergroups env user_id group_name ugs s = (r, s')"
  shows "(\<exists>cs. calls s' = calls s @ cs) \<and>
         username_to_id_cache s' = username_to_id_cache s \<and>
         (case r of
            Inr (Some b) \<Rightarrow>
              \<exists>t. group_membership_cache s'
                    = (group_membership_cache s)(group_key user_id group_name \<mapsto> (b, t))
          | _ \<Rightarrow> group_membership_cache s' = group_membership_cache s)"
  using assms
proof (induction ugs arbitrary: s)
  case Nil
  then show ?case by auto
next
  case (Cons ug rest)
  show ?case
  proof (cases "g_handle ug = group_name")
    case False
    with Cons.prems have "scan_usergroups env user_id group_name rest s = (r, s')"
      by simp
    from Cons.IH [OF this] show ?thesis .
  next
    case True
    let ?s1 = "issue (UsergroupsUsersList (g_id ug)) s"
    show ?thesis
    proof (cases "usergroups_users_list env (calls s) (g_id ug)")
      case (Inl e)
      with True Cons.prems show ?thesis
        by (auto simp: issue_def)
    next
      case (Inr members)
      show ?thesis
      proof (cases "gm_ok members")
        case True
        with \<open>g_handle ug = group_name\<close> Inr Cons.prems show ?thesis
          by (auto simp: issue_def tick_def)
      next
        case False
        with \<open>g_handle ug = group_name\<close> Inr Cons.prems
        have "scan_usergroups env user_id group_name rest ?s1 = (r, s')"
          by simp
        from Cons.IH [OF this] show ?thesis
          by (cases r) (force split: option.splits)+
      qed
    qed
  qed
qed

lemma scan_usergroups_no_match:
  assumes "\<forall>ug\<in>set ugs. g_handle ug \<noteq> group_name"
  shows "scan_usergroups env user_id group_name ugs s = (Inr None, s)"
  using assms by (induction ugs) auto

lemma query_group_effect:
  assumes "query_group env user_id group_name s = (r, s')"
  shows "(\<exists>cs. calls s' = calls s @ UsergroupsList # cs) \<and>
         username_to_id_cache s' = username_to_id_cache s \<and>
         (case r of
            Inr (Some b) \<Rightarrow>
              \<exists>t. group_membership_cache s'
                    = (group_membership_cache s)(group_key user_id group_name \<mapsto> (b, t))
          | _ \<Rightarrow> group_membership_cache s' = group_membership_cache s)"
proof (cases "usergroups_list env (calls s)")
  case (Inl e)
  with assms show ?thesis
    by (auto simp: query_group_def issue_def)
next
  case (Inr response)
  show ?thesis
  proof (cases "gl_ok response")
    case False
    with Inr assms show ?thesis
      by (auto simp: query_group_def issue_def)
  next
    case True
    with Inr assms have
      "scan_usergroups env user_id group_name (gl_usergroups response) (issue UsergroupsList s)
         = (r, s')"
      by (simp add: query_group_def)
    from scan_usergroups_effect [OF this] show ?thesis
      by (cases r) (force split: option.splits)+
  qed
qed

lemma cached_membership_miss:
  assumes "cached_membership env k s = (None, s0)"
  shows "calls s0 = calls s \<and> group_membership_cache s0 = group_membership_cache s \<and>
         username_to_id_cache s0 = username_to_id_cache s \<and> log s0 = log s"
  using assms by (auto simp: cached_membership_def tick_def split: option.splits if_splits)

lemma cached_membership_still_missing:
  assumes "fst (cached_membership env k s) = None"
    and "group_membership_cache s2 k = group_membership_cache s k"
    and "now env (ticks s) \<le> now env (ticks s2)"
  shows "fst (cached_membership env k s2) = None"
  using assms by (auto simp: cached_membership_def split: option.splits if_splits)

lemma is_user_in_group_miss_calls:
  assumes "fst (cached_membership env (group_key user_id group_name) s) = None"
  shows "\<exists>cs. calls (snd (is_user_in_group env user_id group_name s))
                = calls s @ UsergroupsList # cs"
proof -
  let ?k = "group_key user_id group_name"
  obtain s0 where c: "cached_membership env ?k s = (None, s0)"
    using assms by (cases "cached_membership env ?k s") simp
  obtain r s1 where q: "query_group env user_id group_name s0 = (r, s1)"
    by (cases "query_group env user_id group_name s0")
  from query_group_effect [OF q] cached_membership_miss [OF c]
  have "\<exists>cs. calls s1 = calls s @ UsergroupsList # cs"
    by auto
  then show ?thesis
    by (auto simp: is_user_in_group_def c q emit_def
             split: sum.splits exn.splits option.splits)
qed

subsection \<open>C4: a group handle that matches no user group\<close>

text \<open>
  C4, as stated, fails: a lookup that finds no user group with the handle returns false
  and stores nothing, so the repeated call asks the directory again.
\<close>

theorem group_no_match_cached_counterexample:
  "fst (is_user_in_group directory_env ''U0000000004'' ''ops-team'' team_manager) = Inr False \<and>
   group_membership_cache
     (snd (is_user_in_group directory_env ''U0000000004'' ''ops-team'' team_manager))
     (group_key ''U0000000004'' ''ops-team'') = None \<and>
   calls (snd (is_user_in_group directory_env ''U0000000004'' ''ops-team''
                 (snd (is_user_in_group directory_env ''U0000000004'' ''ops-team''
                         team_manager))))
     = [UsergroupsList, UsergroupsList]"
  by (simp add: method_defs example_defs)

text \<open>
  C4, amended. Let \<open>is_user_in_group\<close> miss the cache. If \<open>usergroups.list\<close> succeeds
  and no user group has the handle, the call returns false after that one directory
  call and leaves the group cache as it was. If the directory query ends in a
  \<open>SlackApiError\<close>, the call returns false, logs the error and leaves the group cache
  as it was. In both cases nothing is cached, so a repeated call, from any state whose
  cache entry for the pair is unchanged and whose clock has not run backwards, issues
  \<open>usergroups.list\<close> again.
\<close>

theorem group_no_match_not_cached:
  assumes "cached_membership env (group_key user_id group_name) s = (None, s0)"
  shows "(\<forall>response.
            usergroups_list env (calls s0) = Inr response \<and> gl_ok response \<and>
            (\<forall>ug\<in>set (gl_usergroups response). g_handle ug \<noteq> group_name) \<longrightarrow>
            is_user_in_group env user_id group_name s = (Inr False, issue UsergroupsList s0)) \<and>
         (\<forall>m s1.
            query_group env user_id group_name s0 = (Inl (SlackApiError m), s1) \<longrightarrow>
            is_user_in_group env user_id group_name s
              = (Inr False, emit (LogErrorGroupMembership (SlackApiError m)) s1) \<and>
            group_membership_cache s1 = group_membership_cache s) \<and>
         group_membership_cache (issue UsergroupsList s0) = group_membership_cache s \<and>
         (\<forall>s2. group_membership_cache s2 (group_key user_id group_name)
                 = group_membership_cache s (group_key user_id group_name) \<and>
               now env (ticks s) \<le> now env (ticks s2) \<longrightarrow>
               (\<exists>cs. calls (snd (is_user_in_group env user_id group_name s2))
                       = calls s2 @ UsergroupsList # cs))"
proof (intro conjI allI impI)
  fix response
  assume a: "usergroups_list env (calls s0) = Inr response \<and> gl_ok response \<and>
             (\<forall>ug\<in>set (gl_usergroups response). g_handle ug \<noteq> group_name)"
  then have "query_group env user_id group_name s0 = (Inr None, issue UsergroupsList s0)"
    by (simp add: query_group_def scan_usergroups_no_match)
  with assms show "is_user_in_group env user_id group_name s
                     = (Inr False, issue UsergroupsList s0)"
    by (simp add: is_user_in_group_def)
next
  fix m s1
  assume q: "query_group env user_id group_name s0 = (Inl (SlackApiError m), s1)"
  with assms show "is_user_in_group env user_id group_name s
                     = (Inr False, emit (LogErrorGroupMembership (SlackApiError m)) s1)"
    by (simp add: is_user_in_group_def)
  from query_group_effect [OF q] cached_membership_miss [OF assms]
  show "group_membership_cache s1 = group_membership_cache s"
    by simp
next
  from cached_membership_miss [OF assms]
  show "group_membership_cache (issue UsergroupsList s0) = group_membership_cache s"
    by (simp add: issue_def)
next
  fix s2 :: rbac_manager
  assume a: "group_membership_cache s2 (group_key user_id group_name)
               = group_membership_cache s (group_key user_id group_name) \<and>
             now env (ticks s) \<le> now env (ticks s2)"
  from assms have "fst (cached_membership env (group_key user_id group_name) s) = None"
    by simp
  from cached_membership_still_missing [OF this] a
  have "fst (cached_membership env (group_key user_id group_name) s2) = None"
    by blast
  from is_user_in_group_miss_calls [OF this]
  show "\<exists>cs. calls (snd (is_user_in_group env user_id group_name s2))
               = calls s2 @ UsergroupsList # cs" .
qed

theorem group_no_match_not_cached_witness:
  "is_user_in_group directory_env ''U0000000004'' ''ops-team'' team_manager
     = (Inr False, issue UsergroupsList team_manager) \<and>
   is_user_in_group outage_env ''U0000000004'' ''dba-team'' team_manager
     = (Inr False,
        emit (LogErrorGroupMembership (SlackApiError ''outage''))
          (issue UsergroupsList team_manager))"
proof -
  have a: "cached_membership directory_env (group_key ''U0000000004'' ''ops-team'') team_manager
             = (None, team_manager)"
    by (simp add: method_defs example_defs)
  have b: "usergroups_list directory_env (calls team_manager)
             = Inr \<lparr>gl_ok = True,
                    gl_usergroups = [\<lparr>g_handle = ''dba-team'', g_id = ''S0000000001''\<rparr>]\<rparr>"
    by (simp add: directory_env_def)
  have c: "cached_membership outage_env (group_key ''U0000000004'' ''dba-team'') team_manager
             = (None, team_manager)"
    by (simp add: method_defs example_defs)
  have d: "query_group outage_env ''U0000000004'' ''dba-team'' team_manager
             = (Inl (SlackApiError ''outage''), issue UsergroupsList team_manager)"
    by (simp add: query_group_def outage_env_def)
  from group_no_match_not_cached [OF a] b
  have "is_user_in_group directory_env ''U0000000004'' ''ops-team'' team_manager
          = (Inr False, issue UsergroupsList team_manager)"
    by simp
  moreover from group_no_match_not_cached [OF c] d
  have "is_user_in_group outage_env ''U0000000004'' ''dba-team'' team_manager
          = (Inr False,
             emit (LogErrorGroupMembership (SlackApiError ''outage''))
               (issue UsergroupsList team_manager))"
    by blast
  ultimately show ?thesis by simp
qed

subsection \<open>What a configuration update leaves alone\<close>

lemma warm_manager_eq:
  "warm_manager = team_manager
     \<lparr>group_membership_cache := [''U0000000004:dba-team'' \<mapsto> (True, 1001)],
      username_to_id_cache := [''username:alice'' \<mapsto> (''U0000000002'', 1000)],
      calls := [UsersList, UsergroupsList, UsergroupsUsersList ''S0000000001''],
      ticks := 2,
      log := [LogPermissionCheck ''U0000000004'' ''create_cluster'']\<rparr>"
  by (simp add: warm_manager_def method_defs example_defs)

lemma apply_update_frame:
  assumes "apply_update kv s = Inr s'"
  shows "group_membership_cache s' = group_membership_cache s \<and>
         username_to_id_cache s' = username_to_id_cache s \<and>
         calls s' = calls s \<and> ticks s' = ticks s \<and> log s' = log s"
  using assms by (cases kv) (auto split: if_splits config_value.splits)

lemma apply_updates_frame:
  assumes "apply_updates kvs s = Inr s'"
  shows "group_membership_cache s' = group_membership_cache s \<and>
         username_to_id_cache s' = username_to_id_cache s \<and>
         calls s' = calls s \<and> ticks s' = ticks s \<and> log s' = log s"
  using assms
proof (induction kvs arbitrary: s)
  case Nil
  then show ?case by simp
next
  case (Cons kv rest)
  from Cons.prems obtain s1 where
    a: "apply_update kv s = Inr s1" and b: "apply_updates rest s1 = Inr s'"
    by (auto split: sum.splits)
  from apply_update_frame [OF a] Cons.IH [OF b] show ?case
    by simp
qed

subsection \<open>C3: what clearing the cache clears\<close>

text \<open>
  C3, as stated, fails: \<open>clear_cache\<close> empties the group membership cache only. An
  identity resolved from an admin handle before the clear is recognised as admin after
  it without any directory call.
\<close>

theorem username_cache_survives_clear_counterexample:
  "username_to_id_cache warm_manager ''username:alice'' = Some (''U0000000002'', 1000) \<and>
   fst (check_user_permission directory_env ''U0000000002'' ''create_cluster'' None
          (clear_cache warm_manager))
     = Inr \<lparr>allowed = True, reason = ''Admin user''\<rparr> \<and>
   calls (snd (check_user_permission directory_env ''U0000000002'' ''create_cluster'' None
                 (clear_cache warm_manager)))
     = calls warm_manager"
  by (simp add: warm_manager_eq) (simp add: method_defs example_defs)

text \<open>
  C3, amended. After \<open>clear_cache\<close>, or after an \<open>update_configuration\<close> that returns,
  the group membership cache is empty, so the next \<open>is_user_in_group\<close> for every
  identity and group, cached before or not, issues \<open>usergroups.list\<close>. The username
  cache is left as it was: an admin handle whose cached resolution is still within the
  TTL is served from the cache, with no directory call.
\<close>

theorem cache_clear_scope:
  assumes "s' = clear_cache s \<or> update_configuration config_updates s = Inr s'"
  shows "group_membership_cache s' = Map.empty \<and>
         username_to_id_cache s' = username_to_id_cache s \<and>
         calls s' = calls s \<and> ticks s' = ticks s \<and>
         (\<forall>env user_id group_name.
            \<exists>cs. calls (snd (is_user_in_group env user_id group_name s'))
                   = calls s' @ UsergroupsList # cs) \<and>
         (\<forall>env admin_entry uid ts.
            \<not> is_user_id_format admin_entry \<and>
            username_to_id_cache s (username_key (lstrip_at admin_entry)) = Some (uid, ts) \<and>
            now env (ticks s) - ts < cache_ttl \<longrightarrow>
            resolve_admin_entry_to_user_id env admin_entry s' = (Inr (Some uid), tick s'))"
proof -
  have frame: "group_membership_cache s' = Map.empty \<and>
               username_to_id_cache s' = username_to_id_cache s \<and>
               calls s' = calls s \<and> ticks s' = ticks s"
    using assms
  proof
    assume "s' = clear_cache s"
    then show ?thesis by (simp add: clear_cache_def)
  next
    assume "update_configuration config_updates s = Inr s'"
    then obtain s1 where
      a: "apply_updates config_updates s = Inr s1" and
      b: "s' = (emit (LogConfigurationUpdated config_updates) s1)
                 \<lparr>group_membership_cache := Map.empty\<rparr>"
      by (auto simp: update_configuration_def split: sum.splits)
    from apply_updates_frame [OF a] b show ?thesis
      by simp
  qed
  have requery: "\<exists>cs. calls (snd (is_user_in_group env user_id group_name s'))
                        = calls s' @ UsergroupsList # cs" for env user_id group_name
  proof (rule is_user_in_group_miss_calls)
    from frame show "fst (cached_membership env (group_key user_id group_name) s') = None"
      by (simp add: cached_membership_def)
  qed
  have served: "resolve_admin_entry_to_user_id env admin_entry s' = (Inr (Some uid), tick s')"
    if "\<not> is_user_id_format admin_entry \<and>
        username_to_id_cache s (username_key (lstrip_at admin_entry)) = Some (uid, ts) \<and>
        now env (ticks s) - ts < cache_ttl" for env admin_entry uid ts
    using that frame by (intro resolve_admin_entry_hit [where ts = ts]) simp_all
  from frame requery served show ?thesis
    by blast
qed

theorem cache_clear_scope_witness:
  "group_membership_cache warm_manager (group_key ''U0000000004'' ''dba-team'')
     = Some (True, 1001) \<and>
   group_membership_cache (clear_cache warm_manager) = Map.empty \<and>
   calls (snd (is_user_in_group directory_env ''U0000000004'' ''dba-team''
                 (clear_cache warm_manager)))
     = calls warm_manager @ [UsergroupsList, UsergroupsUsersList ''S0000000001'']"
proof -
  have a: "group_membership_cache warm_manager (group_key ''U0000000004'' ''dba-team'')
             = Some (True, 1001)"
    by (simp add: warm_manager_eq group_key_def)
  have b: "calls (snd (is_user_in_group directory_env ''U0000000004'' ''dba-team''
                         (clear_cache warm_manager)))
             = calls warm_manager @ [UsergroupsList, UsergroupsUsersList ''S0000000001'']"
    by (simp add: warm_manager_eq) (simp add: method_defs example_defs)
  from cache_clear_scope [of "clear_cache warm_manager" warm_manager "[]"] a b
  show ?thesis by simp
qed

subsection \<open>What the admin test and the notification log and call\<close>

lemma extends_by_refl [simp]: "extends_by P xs xs"
  by (simp add: extends_by_def)

lemma extends_by_trans:
  "extends_by P xs ys \<Longrightarrow> extends_by P ys zs \<Longrightarrow> extends_by P xs zs"
  by (auto simp: extends_by_def)

lemma extends_by_snoc:
  "extends_by P xs ys \<Longrightarrow> P y \<Longrightarrow> extends_by P xs (ys @ [y])"
  by (auto simp: extends_by_def)

lemma lookup_by_email_quiet:
  "lookup_by_email env username s = (r, s') \<Longrightarrow> quiet s s'"
  by (auto simp: lookup_by_email_def Let_def extends_by_def
           split: sum.splits exn.splits if_splits)

lemma resolve_username_quiet:
  assumes "resolve_username_to_user_id env username s = (r, s')"
  shows "quiet s s'"
  using assms
  by (auto simp: resolve_username_to_user_id_def Let_def extends_by_def
           split: sum.splits exn.splits option.splits if_splits
           dest!: lookup_by_email_effect)

lemma resolve_admin_entry_quiet:
  assumes "resolve_admin_entry_to_user_id env admin_entry s = (r, s')"
  shows "quiet s s'"
proof (cases "is_user_id_format admin_entry")
  case True
  with assms show ?thesis
    by (auto simp: resolve_admin_entry_to_user_id_def)
next
  case False
  obtain h s0 where c: "cached_user_id env (username_key (lstrip_at admin_entry)) s = (h, s0)"
    by (cases "cached_user_id env (username_key (lstrip_at admin_entry)) s")
  then have s0: "log s0 = log s" "calls s0 = calls s"
    by (auto simp: cached_user_id_def split: option.splits)
  show ?thesis
  proof (cases h)
    case (Some uid)
    with assms False c s0 show ?thesis
      by (auto simp: resolve_admin_entry_to_user_id_def)
  next
    case None
    obtain r0 s1 where u: "resolve_username_to_user_id env (lstrip_at admin_entry) s0 = (r0, s1)"
      by (cases "resolve_username_to_user_id env (lstrip_at admin_entry) s0")
    from assms False c None u have "log s' = log s1" "calls s' = calls s1"
      by (auto simp: resolve_admin_entry_to_user_id_def resolve_and_cache_def
               split: sum.splits option.splits if_splits)
    with resolve_username_quiet [OF u] s0 show ?thesis
      by simp
  qed
qed

lemma scan_usergroups_quiet:
  "scan_usergroups env user_id group_name ugs s = (r, s') \<Longrightarrow> quiet s s'"
proof (induction ugs arbitrary: s)
  case Nil
  then show ?case by auto
next
  case (Cons ug rest)
  let ?s1 = "issue (UsergroupsUsersList (g_id ug)) s"
  have step: "quiet s ?s1"
    by (simp add: extends_by_def)
  consider (skip) "scan_usergroups env user_id group_name rest s = (r, s')"
    | (again) "scan_usergroups env user_id group_name rest ?s1 = (r, s')"
    | (stop) "log s' = log s" "calls s' = calls ?s1"
    using Cons.prems by (auto split: sum.splits if_splits)
  then show ?case
  proof cases
    case skip
    from Cons.IH [OF this] show ?thesis .
  next
    case again
    from Cons.IH [OF this] step show ?thesis
      by (blast intro: extends_by_trans)
  next
    case stop
    with step show ?thesis by simp
  qed
qed

lemma query_group_quiet:
  assumes "query_group env user_id group_name s = (r, s')"
  shows "quiet s s'"
proof -
  have step: "quiet s (issue UsergroupsList s)"
    by (simp add: extends_by_def)
  consider (scan) ugs where
      "scan_usergroups env user_id group_name ugs (issue UsergroupsList s) = (r, s')"
    | (stop) "s' = issue UsergroupsList s"
    using assms by (auto simp: query_group_def split: sum.splits if_splits)
  then show ?thesis
  proof cases
    case scan
    from scan_usergroups_quiet [OF this] step show ?thesis
      by (blast intro: extends_by_trans)
  next
    case stop
    with step show ?thesis by simp
  qed
qed

lemma is_user_in_group_quiet:
  assumes "is_user_in_group env user_id group_name s = (r, s')"
  shows "quiet s s'"
proof -
  obtain h s0 where c: "cached_membership env (group_key user_id group_name) s = (h, s0)"
    by (cases "cached_membership env (group_key user_id group_name) s")
  then have s0: "log s0 = log s" "calls s0 = calls s"
    by (auto simp: cached_membership_def split: option.splits)
  show ?thesis
  proof (cases h)
    case (Some b)
    with assms c s0 show ?thesis
      by (auto simp: is_user_in_group_def)
  next
    case None
    obtain r0 s1 where q: "query_group env user_id group_name s0 = (r0, s1)"
      by (cases "query_group env user_id group_name s0")
    from query_group_quiet [OF q] s0 have q1: "quiet s s1"
      by simp
    from assms c None q consider "s' = s1"
      | e where "s' = emit (LogErrorGroupMembership e) s1"
      by (auto simp: is_user_in_group_def split: sum.splits exn.splits option.splits)
    then show ?thesis
    proof cases
      case 1
      with q1 show ?thesis by simp
    next
      case 2
      with q1 show ?thesis
        by (auto intro: extends_by_snoc)
    qed
  qed
qed

lemma any_admin_entry_resolves_quiet:
  "any_admin_entry_resolves env user_id entries s = (r, s') \<Longrightarrow> quiet s s'"
proof (induction entries arbitrary: s)
  case Nil
  then show ?case by auto
next
  case (Cons e rest)
  obtain r0 s1 where eq: "resolve_admin_entry_to_user_id env e s = (r0, s1)"
    by (cases "resolve_admin_entry_to_user_id env e s")
  from Cons.prems eq consider "s' = s1"
    | "any_admin_entry_resolves env user_id rest s1 = (r, s')"
    by (auto split: sum.splits if_splits)
  then show ?case
  proof cases
    case 1
    with resolve_admin_entry_quiet [OF eq] show ?thesis by simp
  next
    case 2
    from Cons.IH [OF this] resolve_admin_entry_quiet [OF eq] show ?thesis
      by (blast intro: extends_by_trans)
  qed
qed

lemma any_admin_group_contains_quiet:
  "any_admin_group_contains env user_id groups s = (r, s') \<Longrightarrow> quiet s s'"
proof (induction groups arbitrary: s)
  case Nil
  then show ?case by auto
next
  case (Cons g rest)
  obtain r0 s1 where eq: "is_user_in_group env user_id g s = (r0, s1)"
    by (cases "is_user_in_group env user_id g s")
  from Cons.prems eq consider "s' = s1"
    | "any_admin_group_contains env user_id rest s1 = (r, s')"
    by (auto split: sum.splits if_splits)
  then show ?case
  proof cases
    case 1
    with is_user_in_group_quiet [OF eq] show ?thesis by simp
  next
    case 2
    from Cons.IH [OF this] is_user_in_group_quiet [OF eq] show ?thesis
      by (blast intro: extends_by_trans)
  qed
qed

lemma is_user_admin_quiet:
  assumes "is_user_admin env user_id s = (r, s')"
  shows "quiet s s'"
proof -
  obtain r0 s1 where eq: "any_admin_entry_resolves env user_id (admin_users s) s = (r0, s1)"
    by (cases "any_admin_entry_resolves env user_id (admin_users s) s")
  from assms eq consider "s' = s" | "s' = s1"
    | "any_admin_group_contains env user_id (admin_groups s1) s1 = (r, s')"
    by (auto simp: is_user_admin_def split: sum.splits bool.splits if_splits)
  then show ?thesis
  proof cases
    case 1
    then show ?thesis by simp
  next
    case 2
    with any_admin_entry_resolves_quiet [OF eq] show ?thesis by simp
  next
    case 3
    from any_admin_group_contains_quiet [OF this] any_admin_entry_resolves_quiet [OF eq]
    show ?thesis
      by (blast intro: extends_by_trans)
  qed
qed

lemma post_to_admins_effect:
  "extends_by (\<lambda>r. \<not> is_permission_check r) (log s) (log (post_to_admins env message admins s)) \<and>
   extends_by is_chat_post (calls s) (calls (post_to_admins env message admins s))"
proof (induction admins arbitrary: s)
  case Nil
  show ?case by simp
next
  case (Cons a rest)
  let ?s1 = "issue (ChatPostMessage a message) s"
  have s1: "extends_by (\<lambda>r. \<not> is_permission_check r) (log s) (log ?s1) \<and>
            extends_by is_chat_post (calls s) (calls ?s1)"
    by (simp add: extends_by_def)
  show ?case
  proof (cases "chat_postMessage env (calls s) a message")
    case (Inr u)
    then have "post_to_admins env message (a # rest) s = post_to_admins env message rest ?s1"
      by simp
    with Cons [of ?s1] s1 show ?thesis
      by (auto intro: extends_by_trans)
  next
    case (Inl e)
    show ?thesis
    proof (cases e)
      case (SlackApiError m)
      let ?s2 = "emit (LogErrorNotifyingAdmin a (SlackApiError m)) ?s1"
      have s2: "extends_by (\<lambda>r. \<not> is_permission_check r) (log s) (log ?s2) \<and>
                extends_by is_chat_post (calls s) (calls ?s2)"
        by (simp add: extends_by_def)
      from Inl SlackApiError
      have "post_to_admins env message (a # rest) s = post_to_admins env message rest ?s2"
        by simp
      with Cons [of ?s2] s2 show ?thesis
        by (auto intro: extends_by_trans)
    next
      case (OtherException m)
      with Inl show ?thesis
        by (simp add: extends_by_def)
    qed
  qed
qed

lemma notify_admin_effect:
  "extends_by (\<lambda>r. \<not> is_permission_check r) (log s)
     (log (notify_admin_of_denied_access env user_id operation s)) \<and>
   (\<exists>posts. calls (notify_admin_of_denied_access env user_id operation s)
              = calls s @ UsersInfo user_id # posts \<and> list_all is_chat_post posts)"
proof (cases "users_info env (calls s) user_id")
  case (Inl e)
  then show ?thesis
    by (simp add: notify_admin_of_denied_access_def extends_by_def)
next
  case (Inr user_info)
  let ?s1 = "tick (issue (UsersInfo user_id) s)"
  let ?m = "\<lparr>alert_username = (if ui_ok user_info then ui_user_name user_info else user_id),
             alert_user_id = user_id, alert_operation = operation,
             alert_time = now env (ticks s)\<rparr>"
  have eq: "notify_admin_of_denied_access env user_id operation s
              = post_to_admins env ?m (admin_users s) ?s1"
    using Inr by (simp add: notify_admin_of_denied_access_def)
  from post_to_admins_effect [of ?s1 env ?m "admin_users s"]
  show ?thesis
    unfolding eq by (auto simp: extends_by_def)
qed

subsection \<open>C6: the record of an access attempt\<close>

text \<open>
  C6, as stated, fails: with RBAC disabled the method returns before the logging
  statement, so a call logs nothing although \<open>log_access_attempts\<close> is set.
\<close>

theorem log_record_when_disabled_counterexample:
  "log_access_attempts (team_manager\<lparr>rbac_enabled := False\<rparr>) \<and>
   fst (check_user_permission directory_env ''U0000000005'' ''create_cluster'' None
          (team_manager\<lparr>rbac_enabled := False\<rparr>))
     = Inr \<lparr>allowed = True, reason = ''RBAC disabled''\<rparr> \<and>
   log (snd (check_user_permission directory_env ''U0000000005'' ''create_cluster'' None
               (team_manager\<lparr>rbac_enabled := False\<rparr>)))
     = []"
  by (simp add: check_user_permission_def example_defs)

text \<open>
  C6, amended. With RBAC enabled and \<open>log_access_attempts\<close> set, every call appends
  exactly one permission-check record, holding the identity and the operation (the
  decision is not known yet and is not in it); every record logged after it by the same
  call is an error record. This holds whatever the outcome: self-service, admin, user
  operation, admin operation denied, unknown operation, or an exception out of the admin
  test. With RBAC disabled the call changes nothing, so it logs nothing; with RBAC
  enabled and \<open>log_access_attempts\<close> unset, the call logs no permission-check record.
\<close>

theorem permission_check_logged_once:
  "(\<not> rbac_enabled s \<longrightarrow>
      snd (check_user_permission env user_id operation target_user s) = s) \<and>
   (rbac_enabled s \<and> log_access_attempts s \<longrightarrow>
      (\<exists>rest. log (snd (check_user_permission env user_id operation target_user s))
                = log s @ LogPermissionCheck user_id operation # rest \<and>
              list_all (\<lambda>r. \<not> is_permission_check r) rest)) \<and>
   (rbac_enabled s \<and> \<not> log_access_attempts s \<longrightarrow>
      extends_by (\<lambda>r. \<not> is_permission_check r) (log s)
        (log (snd (check_user_permission env user_id operation target_user s))))"
proof -
  let ?s0 = "log_attempt user_id operation s"
  let ?s' = "snd (check_user_permission env user_id operation target_user s)"
  have disabled: "?s' = s" if "\<not> rbac_enabled s"
    using that by (simp add: check_user_permission_def)
  have after: "extends_by (\<lambda>r. \<not> is_permission_check r) (log ?s0) (log ?s')"
    if en: "rbac_enabled s"
  proof -
    obtain r s1 where eq: "is_user_admin env user_id ?s0 = (r, s1)"
      by (cases "is_user_admin env user_id ?s0")
    from is_user_admin_quiet [OF eq]
    have q: "extends_by (\<lambda>r. \<not> is_permission_check r) (log ?s0) (log s1)"
      by simp
    have "?s' = ?s0 \<or> ?s' = s1 \<or>
          ?s' = notify_admin_of_denied_access env user_id operation s1"
      by (simp add: check_user_permission_def en eq split: sum.splits bool.splits)
    then consider "?s' = ?s0" | "?s' = s1"
      | "?s' = notify_admin_of_denied_access env user_id operation s1"
      by blast
    then show ?thesis
    proof cases
      case 1
      then show ?thesis by simp
    next
      case 2
      with q show ?thesis by simp
    next
      case 3
      with q notify_admin_effect [of s1 env user_id operation] show ?thesis
        by (auto intro: extends_by_trans)
    qed
  qed
  have logged: "\<exists>rest. log ?s' = log s @ LogPermissionCheck user_id operation # rest \<and>
                  list_all (\<lambda>r. \<not> is_permission_check r) rest"
    if "rbac_enabled s" "log_access_attempts s"
    using after [OF that(1)] that(2) by (auto simp: log_attempt_def extends_by_def)
  have silent: "extends_by (\<lambda>r. \<not> is_permission_check r) (log s) (log ?s')"
    if "rbac_enabled s" "\<not> log_access_attempts s"
    using after [OF that(1)] that(2) by (simp add: log_attempt_def)
  from disabled logged silent show ?thesis
    by blast
qed

theorem permission_check_logged_once_witness:
  "rbac_enabled team_manager \<and> log_access_attempts team_manager \<and>
   log (snd (check_user_permission outage_env ''U0000000005'' ''create_cluster'' None
               team_manager))
     = [LogPermissionCheck ''U0000000005'' ''create_cluster'',
        LogErrorResolvingUsername ''alice'' (SlackApiError ''outage''),
        LogErrorGroupMembership (SlackApiError ''outage''),
        LogErrorAdminNotification (SlackApiError ''outage'')] \<and>
   length (filter is_permission_check
             (log (snd (check_user_permission outage_env ''U0000000005'' ''create_cluster''
                          None team_manager)))) = 1"
proof -
  let ?s' = "snd (check_user_permission outage_env ''U0000000005'' ''create_cluster'' None
                    team_manager)"
  have h: "rbac_enabled team_manager" "log_access_attempts team_manager"
    by (simp_all add: example_defs)
  have l: "log team_manager = []"
    by (simp add: example_defs)
  have e: "log ?s' = [LogPermissionCheck ''U0000000005'' ''create_cluster'',
        LogErrorResolvingUsername ''alice'' (SlackApiError ''outage''),
        LogErrorGroupMembership (SlackApiError ''outage''),
        LogErrorAdminNotification (SlackApiError ''outage'')]"
    by (simp add: method_defs example_defs)
  from permission_check_logged_once
         [of team_manager outage_env "''U0000000005''" "''create_cluster''" None] h l
  obtain rest where
    "log ?s' = LogPermissionCheck ''U0000000005'' ''create_cluster'' # rest"
    "list_all (\<lambda>r. \<not> is_permission_check r) rest"
    by auto
  then have "length (filter is_permission_check (log ?s')) = 1"
    by (simp add: list_all_iff filter_empty_conv [THEN iffD2])
  with h e show ?thesis by simp
qed

subsection \<open>C8: an admin operation requested by a non-admin\<close>



subsection \<open>Where an exception can come from\<close>











subsection \<open>C5: exceptions that reach the caller\<close>




subsection \<open>The admin test while the directory is down\<close>

lemma resolve_username_outage:
  assumes "\<forall>h. \<exists>m. users_list env h = Inl (SlackApiError m)"
  shows "\<exists>s'. resolve_username_to_user_id env username s = (Inr None, s') \<and>
              username_to_id_cache s' = username_to_id_cache s \<and>
              group_membership_cache s' = group_membership_cache s"
proof -
  from assms obtain m where "users_list env (calls s) = Inl (SlackApiError m)"
    by blast
  then show ?thesis
    by (simp add: resolve_username_to_user_id_def)
qed

lemma resolve_admin_entry_outage:
  assumes "\<forall>h. \<exists>m. users_list env h = Inl (SlackApiError m)"
    and "admin_entry \<noteq> user_id"
    and "\<forall>k ts. username_to_id_cache s k \<noteq> Some (user_id, ts)"
  shows "\<exists>r s'. resolve_admin_entry_to_user_id env admin_entry s = (Inr r, s') \<and>
                r \<noteq> Some user_id \<and>
                username_to_id_cache s' = username_to_id_cache s \<and>
                group_membership_cache s' = group_membership_cache s"
proof (cases "is_user_id_format admin_entry")
  case True
  with assms(2) show ?thesis
    by (simp add: resolve_admin_entry_to_user_id_def)
next
  case False
  let ?k = "username_key (lstrip_at admin_entry)"
  obtain h s0 where c: "cached_user_id env ?k s = (h, s0)"
    by (cases "cached_user_id env ?k s")
  then have s0: "username_to_id_cache s0 = username_to_id_cache s"
    "group_membership_cache s0 = group_membership_cache s"
    by (auto simp: cached_user_id_def split: option.splits)
  show ?thesis
  proof (cases h)
    case (Some uid)
    with c cached_user_id_hit [of env ?k s uid s0] assms(3) have "uid \<noteq> user_id"
      by auto
    with False c Some s0 show ?thesis
      by (simp add: resolve_admin_entry_to_user_id_def)
  next
    case None
    from resolve_username_outage [OF assms(1), of "lstrip_at admin_entry" s0] obtain s' where
      "resolve_username_to_user_id env (lstrip_at admin_entry) s0 = (Inr None, s')"
      "username_to_id_cache s' = username_to_id_cache s0"
      "group_membership_cache s' = group_membership_cache s0"
      by blast
    with False c None s0 show ?thesis
      by (simp add: resolve_admin_entry_to_user_id_def resolve_and_cache_def)
  qed
qed

lemma any_admin_entry_resolves_outage:
  assumes "\<forall>h. \<exists>m. users_list env h = Inl (SlackApiError m)"
    and "user_id \<notin> set entries"
    and "\<forall>k ts. username_to_id_cache s k \<noteq> Some (user_id, ts)"
  shows "\<exists>s'. any_admin_entry_resolves env user_id entries s = (Inr False, s') \<and>
              username_to_id_cache s' = username_to_id_cache s \<and>
              group_membership_cache s' = group_membership_cache s"
  using assms(2,3)
proof (induction entries arbitrary: s)
  case Nil
  show ?case by simp
next
  case (Cons e rest)
  from Cons.prems have "e \<noteq> user_id" by auto
  from resolve_admin_entry_outage [OF assms(1) this Cons.prems(2)] obtain r s1 where
    r: "resolve_admin_entry_to_user_id env e s = (Inr r, s1)" "r \<noteq> Some user_id" and
    c: "username_to_id_cache s1 = username_to_id_cache s"
       "group_membership_cache s1 = group_membership_cache s"
    by blast
  from Cons.prems c have "user_id \<notin> set rest"
    "\<forall>k ts. username_to_id_cache s1 k \<noteq> Some (user_id, ts)"
    by auto
  from Cons.IH [OF this] r c show ?case
    by auto
qed

lemma is_user_in_group_outage:
  assumes "\<forall>h. \<exists>m. usergroups_list env h = Inl (SlackApiError m)"
    and "\<forall>g ts. group_membership_cache s (group_key user_id g) \<noteq> Some (True, ts)"
  shows "\<exists>s'. is_user_in_group env user_id group_name s = (Inr False, s') \<and>
              group_membership_cache s' = group_membership_cache s"
proof -
  let ?k = "group_key user_id group_name"
  obtain h s0 where c: "cached_membership env ?k s = (h, s0)"
    by (cases "cached_membership env ?k s")
  then have s0: "group_membership_cache s0 = group_membership_cache s"
    by (auto simp: cached_membership_def split: option.splits)
  show ?thesis
  proof (cases h)
    case (Some b)
    with c assms(2) have "\<not> b"
      by (auto simp: cached_membership_def split: option.splits if_splits)
    with c Some s0 show ?thesis
      by (simp add: is_user_in_group_def)
  next
    case None
    from assms(1) obtain m where "usergroups_list env (calls s0) = Inl (SlackApiError m)"
      by blast
    then have "query_group env user_id group_name s0
                 = (Inl (SlackApiError m), issue UsergroupsList s0)"
      by (simp add: query_group_def)
    with c None s0 show ?thesis
      by (simp add: is_user_in_group_def)
  qed
qed

lemma any_admin_group_contains_outage:
  assumes "\<forall>h. \<exists>m. usergroups_list env h = Inl (SlackApiError m)"
    and "\<forall>g ts. group_membership_cache s (group_key user_id g) \<noteq> Some (True, ts)"
  shows "\<exists>s'. any_admin_group_contains env user_id groups s = (Inr False, s')"
  using assms(2)
proof (induction groups arbitrary: s)
  case Nil
  show ?case by simp
next
  case (Cons g rest)
  from is_user_in_group_outage [OF assms(1) Cons.prems] obtain s1 where
    r: "is_user_in_group env user_id g s = (Inr False, s1)" and
    c: "group_membership_cache s1 = group_membership_cache s"
    by blast
  from Cons.prems c have "\<forall>g ts. group_membership_cache s1 (group_key user_id g) \<noteq> Some (True, ts)"
    by simp
  from Cons.IH [OF this] r show ?case
    by auto
qed

lemma is_user_admin_outage:
  assumes "\<forall>h. \<exists>m. users_list env h = Inl (SlackApiError m)"
    and "\<forall>h. \<exists>m. usergroups_list env h = Inl (SlackApiError m)"
    and "user_id \<notin> set (admin_users s)"
    and "\<forall>k ts. username_to_id_cache s k \<noteq> Some (user_id, ts)"
    and "\<forall>g ts. group_membership_cache s (group_key user_id g) \<noteq> Some (True, ts)"
  shows "fst (is_user_admin env user_id s) = Inr False"
proof -
  from any_admin_entry_resolves_outage [OF assms(1,3,4)] obtain s1 where
    r: "any_admin_entry_resolves env user_id (admin_users s) s = (Inr False, s1)" and
    c: "group_membership_cache s1 = group_membership_cache s"
    by blast
  from assms(5) c have "\<forall>g ts. group_membership_cache s1 (group_key user_id g) \<noteq> Some (True, ts)"
    by simp
  from any_admin_group_contains_outage [OF assms(2) this, of "admin_groups s1"] obtain s2 where
    "any_admin_group_contains env user_id (admin_groups s1) s1 = (Inr False, s2)"
    by blast
  with r assms(3) show ?thesis
    by (simp add: is_user_admin_def)
qed

subsection \<open>C2: a total directory outage\<close>

text \<open>
  C2, as stated, fails: an identity listed in \<open>admin_users\<close> is an admin without any
  directory call, outage or not.
\<close>

theorem listed_admin_during_outage_counterexample:
  "fst (is_user_admin outage_env ''U0000000001''
          (env_default_manager\<lparr>admin_users := [''U0000000001'']\<rparr>)) = Inr True"
  by (simp add: is_user_admin_def)

text \<open>
  C2, amended. Let every \<open>users.list\<close> and every \<open>usergroups.list\<close> call raise
  \<open>SlackApiError\<close> (in a total outage no other directory call of the admin test is
  reached). Then \<open>is_user_admin\<close> returns false for every identity that is not listed
  in \<open>admin_users\<close> and for which the caches hold neither an admin handle resolved to
  it nor a positive group membership; and for such an identity, with RBAC enabled,
  \<open>check_user_permission\<close> denies, with reason "Admin privileges required", every
  operation of \<open>admin_operations\<close> that neither the self-service rule nor the
  user-operation rule allows.
\<close>

theorem outage_fails_closed:
  assumes "\<forall>h. \<exists>m. users_list env h = Inl (SlackApiError m)"
    and "\<forall>h. \<exists>m. usergroups_list env h = Inl (SlackApiError m)"
    and "user_id \<notin> set (admin_users s)"
    and "\<forall>k ts. username_to_id_cache s k \<noteq> Some (user_id, ts)"
    and "\<forall>g ts. group_membership_cache s (group_key user_id g) \<noteq> Some (True, ts)"
  shows "fst (is_user_admin env user_id s) = Inr False \<and>
         (rbac_enabled s \<and> operation \<in> admin_operations s \<and>
          operation \<notin> user_operations s \<and>
          \<not> (operation \<in> self_service_operations s \<and> target_user = Some user_id) \<longrightarrow>
          fst (check_user_permission env user_id operation target_user s)
            = Inr \<lparr>allowed = False, reason = ''Admin privileges required''\<rparr>)"
proof
  from is_user_admin_outage [OF assms]
  show "fst (is_user_admin env user_id s) = Inr False" .
next
  let ?s0 = "log_attempt user_id operation s"
  have "user_id \<notin> set (admin_users ?s0)"
    "\<forall>k ts. username_to_id_cache ?s0 k \<noteq> Some (user_id, ts)"
    "\<forall>g ts. group_membership_cache ?s0 (group_key user_id g) \<noteq> Some (True, ts)"
    using assms(3-5) by (simp_all add: log_attempt_def emit_def)
  from is_user_admin_outage [OF assms(1,2) this]
  have a: "fst (is_user_admin env user_id ?s0) = Inr False" .
  obtain r s1 where eq: "is_user_admin env user_id ?s0 = (r, s1)"
    by (cases "is_user_admin env user_id ?s0")
  from is_user_admin_policy [OF eq] have "policy_of s1 = policy_of s"
    by simp
  note f = policy_of_fields [OF this]
  from a eq have "r = Inr False" by simp
  with eq show "rbac_enabled s \<and> operation \<in> admin_operations s \<and>
          operation \<notin> user_operations s \<and>
          \<not> (operation \<in> self_service_operations s \<and> target_user = Some user_id) \<longrightarrow>
          fst (check_user_permission env user_id operation target_user s)
            = Inr \<lparr>allowed = False, reason = ''Admin privileges required''\<rparr>"
    by (auto simp: check_user_permission_def f)
qed

theorem outage_fails_closed_witness:
  "fst (is_user_admin outage_env ''U0000000002'' team_manager) = Inr False \<and>
   fst (check_user_permission outage_env ''U0000000002'' ''create_cluster'' None team_manager)
     = Inr \<lparr>allowed = False, reason = ''Admin privileges required''\<rparr>"
proof -
  have a: "\<forall>h. \<exists>m. users_list outage_env h = Inl (SlackApiError m)"
    "\<forall>h. \<exists>m. usergroups_list outage_env h = Inl (SlackApiError m)"
    by (simp_all add: outage_env_def)
  have b: "''U0000000002'' \<notin> set (admin_users team_manager)"
    "\<forall>k ts. username_to_id_cache team_manager k \<noteq> Some (''U0000000002'', ts)"
    "\<forall>g ts. group_membership_cache team_manager (group_key ''U0000000002'' g) \<noteq> Some (True, ts)"
    by (simp_all add: example_defs)
  have c: "rbac_enabled team_manager" "''create_cluster'' \<in> admin_operations team_manager"
    "''create_cluster'' \<notin> user_operations team_manager"
    "''create_cluster'' \<notin> self_service_operations team_manager"
    by (simp_all add: example_defs)
  from outage_fails_closed [OF a b, of "''create_cluster''" None] c
  show ?thesis by simp
qed

end
